theory Spec2Isabelle
  imports Complex_Main
begin

section \<open>Numbers\<close>

text \<open>
  The program computes with JavaScript numbers (IEEE 754 doubles). The model keeps the
  special values of that arithmetic and takes every finite value as an exact real:
  rounding and overflow are not modelled. There is one zero: its sign is not modelled,
  and a zero divisor is read as \<open>+0\<close> (every divisor of the modelled code that can be
  zero is a square root, or \<open>1 + dt * drag\<close>, whose zero is \<open>+0\<close>).
\<close>

datatype jsnum = Fin real | PInf | NInf | NaN

definition inf_of_sign :: "real \<Rightarrow> jsnum" where
  "inf_of_sign s = (if 0 < s then PInf else if s < 0 then NInf else NaN)"

fun jneg :: "jsnum \<Rightarrow> jsnum" where
  "jneg (Fin a) = Fin (- a)"
| "jneg PInf = NInf"
| "jneg NInf = PInf"
| "jneg NaN = NaN"

fun jadd :: "jsnum \<Rightarrow> jsnum \<Rightarrow> jsnum" where
  "jadd (Fin a) (Fin b) = Fin (a + b)"
| "jadd NaN _ = NaN"
| "jadd _ NaN = NaN"
| "jadd PInf NInf = NaN"
| "jadd NInf PInf = NaN"
| "jadd PInf _ = PInf"
| "jadd _ PInf = PInf"
| "jadd NInf _ = NInf"
| "jadd _ NInf = NInf"

definition jsub :: "jsnum \<Rightarrow> jsnum \<Rightarrow> jsnum" where
  "jsub a b = jadd a (jneg b)"

fun jmul :: "jsnum \<Rightarrow> jsnum \<Rightarrow> jsnum" where
  "jmul (Fin a) (Fin b) = Fin (a * b)"
| "jmul NaN _ = NaN"
| "jmul _ NaN = NaN"
| "jmul PInf (Fin b) = inf_of_sign b"
| "jmul (Fin a) PInf = inf_of_sign a"
| "jmul NInf (Fin b) = inf_of_sign (- b)"
| "jmul (Fin a) NInf = inf_of_sign (- a)"
| "jmul PInf PInf = PInf"
| "jmul PInf NInf = NInf"
| "jmul NInf PInf = NInf"
| "jmul NInf NInf = PInf"

fun jdiv :: "jsnum \<Rightarrow> jsnum \<Rightarrow> jsnum" where
  "jdiv (Fin a) (Fin b) = (if b = 0 then inf_of_sign a else Fin (a / b))"
| "jdiv NaN _ = NaN"
| "jdiv _ NaN = NaN"
| "jdiv (Fin a) PInf = Fin 0"
| "jdiv (Fin a) NInf = Fin 0"
| "jdiv PInf (Fin b) = (if 0 \<le> b then PInf else NInf)"
| "jdiv NInf (Fin b) = (if 0 \<le> b then NInf else PInf)"
| "jdiv PInf PInf = NaN"
| "jdiv PInf NInf = NaN"
| "jdiv NInf PInf = NaN"
| "jdiv NInf NInf = NaN"

text \<open>\<open>Math.sqrt\<close>.\<close>

fun jsqrt :: "jsnum \<Rightarrow> jsnum" where
  "jsqrt (Fin a) = (if a < 0 then NaN else Fin (sqrt a))"
| "jsqrt PInf = PInf"
| "jsqrt NInf = NaN"
| "jsqrt NaN = NaN"

text \<open>The comparisons: each is false as soon as an operand is \<open>NaN\<close>.\<close>

fun jless :: "jsnum \<Rightarrow> jsnum \<Rightarrow> bool" where
  "jless (Fin a) (Fin b) = (a < b)"
| "jless NaN _ = False"
| "jless _ NaN = False"
| "jless _ NInf = False"
| "jless PInf _ = False"
| "jless NInf _ = True"
| "jless _ PInf = True"

fun jle :: "jsnum \<Rightarrow> jsnum \<Rightarrow> bool" where
  "jle (Fin a) (Fin b) = (a \<le> b)"
| "jle NaN _ = False"
| "jle _ NaN = False"
| "jle NInf _ = True"
| "jle _ PInf = True"
| "jle PInf _ = False"
| "jle _ NInf = False"

definition jgt :: "jsnum \<Rightarrow> jsnum \<Rightarrow> bool" where
  "jgt a b = jless b a"

definition jge :: "jsnum \<Rightarrow> jsnum \<Rightarrow> bool" where
  "jge a b = jle b a"

fun finite_num :: "jsnum \<Rightarrow> bool" where
  "finite_num (Fin a) = True"
| "finite_num PInf = False"
| "finite_num NInf = False"
| "finite_num NaN = False"

text \<open>The truthiness of a number, as in \<open>if (!this.health)\<close>: zero and \<open>NaN\<close> are falsy.\<close>

fun truthy :: "jsnum \<Rightarrow> bool" where
  "truthy (Fin a) = (a \<noteq> 0)"
| "truthy PInf = True"
| "truthy NInf = True"
| "truthy NaN = False"

section \<open>Vectors\<close>

text \<open>
  Modelled from the spec: the vector kernel (\<open>Vec\<close>, \<open>Geometry\<close>, \<open>Numeric\<close> of
  \<open>@common/utils\<close>) is not under src/; the spec names it as pure 2D vector arithmetic
  (section 2), squared distance and clamping into bounds (section 4.2, step 8).
\<close>

record vec =
  vec_x :: jsnum
  vec_y :: jsnum

definition Vec_create :: "jsnum \<Rightarrow> jsnum \<Rightarrow> vec" where
  "Vec_create a b = \<lparr>vec_x = a, vec_y = b\<rparr>"

definition Vec_add :: "vec \<Rightarrow> vec \<Rightarrow> vec" where
  "Vec_add a b = Vec_create (jadd (vec_x a) (vec_x b)) (jadd (vec_y a) (vec_y b))"

definition Vec_sub :: "vec \<Rightarrow> vec \<Rightarrow> vec" where
  "Vec_sub a b = Vec_create (jsub (vec_x a) (vec_x b)) (jsub (vec_y a) (vec_y b))"

definition Vec_scale :: "vec \<Rightarrow> jsnum \<Rightarrow> vec" where
  "Vec_scale a n = Vec_create (jmul (vec_x a) n) (jmul (vec_y a) n)"

definition Vec_dotProduct :: "vec \<Rightarrow> vec \<Rightarrow> jsnum" where
  "Vec_dotProduct a b = jadd (jmul (vec_x a) (vec_x b)) (jmul (vec_y a) (vec_y b))"

definition Vec_squaredLength :: "vec \<Rightarrow> jsnum" where
  "Vec_squaredLength a = jadd (jmul (vec_x a) (vec_x a)) (jmul (vec_y a) (vec_y a))"

definition Vec_length :: "vec \<Rightarrow> jsnum" where
  "Vec_length a = jsqrt (Vec_squaredLength a)"

definition Geometry_distanceSquared :: "vec \<Rightarrow> vec \<Rightarrow> jsnum" where
  "Geometry_distanceSquared a b = Vec_squaredLength (Vec_sub a b)"

definition Numeric_clamp :: "jsnum \<Rightarrow> jsnum \<Rightarrow> jsnum \<Rightarrow> jsnum" where
  "Numeric_clamp v lo hi = (if jless v hi then (if jgt v lo then v else lo) else hi)"

definition finite_vec :: "vec \<Rightarrow> bool" where
  "finite_vec a = (finite_num (vec_x a) \<and> finite_num (vec_y a))"

section \<open>The data model\<close>

text \<open>World objects are named by an identifier; \<open>===\<close> on objects is equality of identifiers.\<close>

type_synonym objid = nat

datatype hitbox =
    Circle vec jsnum
  | Rect vec vec
  | Polygon vec "vec list" "vec list"
  | Group "hitbox list"

text \<open>\<open>CollisionResponse\<close>: \<open>null\<close> is \<open>None\<close>.\<close>

record collision_response =
  dir :: vec
  pen :: jsnum

text \<open>\<open>IntersectionResponse\<close> of \<open>intersectsLine\<close>.\<close>

record intersection_response =
  point :: vec
  normal :: vec

datatype category = Player | Obstacle | Building | OtherObject

datatype flyover_pref = Always | Sometimes | Never

text \<open>What an object never changes: its kind (\<open>isObstacle\<close>, \<open>isPlayer\<close>, \<open>isBuilding\<close>)
  and the fields of its read-only definition.\<close>

record object_static =
  category :: category
  allowFlyover :: flyover_pref
  isStair :: bool

text \<open>What an object can change. \<open>obj_door\<close> is \<open>door?.isOpen\<close>: \<open>None\<close> without a door.\<close>

record object_state =
  obj_dead :: bool
  collidable :: bool
  obj_hitbox :: "hitbox option"
  obj_layer :: int
  obj_door :: "bool option"

type_synonym world = "objid \<Rightarrow> object_state"

datatype drag = Normal | Harsh

fun drag_value :: "drag \<Rightarrow> jsnum" where
  "drag_value Normal = Fin 0.001"
| "drag_value Harsh = Fin 0.005"

text \<open>The fields of \<open>ThrowableDefinition\<close> that the projectile reads.\<close>

record throwable_definition =
  c4 :: bool
  speedCap :: jsnum
  impactDamage :: "jsnum option"
  obstacleMultiplier :: "jsnum option"
  def_health :: "jsnum option"
  explosion :: "string option"

text \<open>
  \<open>ThrowableProjectile\<close>. \<open>position\<close> and \<open>radius\<close> are those of its circle hitbox,
  \<open>owner\<close> is \<open>source.owner\<close>, \<open>defn\<close> is \<open>definition\<close>; \<open>rotation\<close>, \<open>layer\<close> and
  \<open>dead\<close> are inherited from the base object. The cosmetic fields
  (\<open>halloweenSkin\<close>, \<open>tintIndex\<close>, \<open>throwerTeamID\<close>) are left out.
\<close>

record projectile =
  defn :: throwable_definition
  owner :: objid
  health :: "jsnum option"
  position :: vec
  radius :: jsnum
  rotation :: jsnum
  layer :: int
  dead :: bool
  velocity :: vec
  angularVelocity :: jsnum
  spawnTime :: jsnum
  collideWithOwner :: bool
  airborne :: bool
  activated :: bool
  currentlyAbove :: "objid set"
  currentDrag :: drag
  damagedLastTick :: "objid set"

text \<open>
  The collaborators of one tick, none of them under src/: the clock, the map, the
  spatial grid, the shape kernel (\<open>collidesWith\<close>, \<open>intersectsLine\<close>, the three
  penetration tests of \<open>Collision\<close>), \<open>equalLayer\<close>, \<open>Angle.normalize\<close>, and the two
  methods of world objects that the projectile calls. Each is a parameter.
  \<open>object_damage\<close> is \<open>object.damage\<close>: it may change any object of the world.
  \<open>handleStairInteraction\<close> receives the projectile; what it returns is the projectile
  after the call (see \<open>keep_private\<close>).
\<close>

record env =
  dt :: jsnum
  now :: jsnum
  map_width :: jsnum
  map_height :: jsnum
  floor_overlay :: "vec \<Rightarrow> int \<Rightarrow> bool"
  intersectsHitbox :: "hitbox \<Rightarrow> int option \<Rightarrow> objid list"
  objects :: "objid \<Rightarrow> object_static"
  Angle_normalize :: "jsnum \<Rightarrow> jsnum"
  collidesWith :: "hitbox \<Rightarrow> hitbox \<Rightarrow> bool"
  intersectsLine :: "hitbox \<Rightarrow> vec \<Rightarrow> vec \<Rightarrow> intersection_response option"
  circleCircleIntersection :: "vec \<Rightarrow> jsnum \<Rightarrow> vec \<Rightarrow> jsnum \<Rightarrow> collision_response option"
  rectCircleIntersection :: "vec \<Rightarrow> vec \<Rightarrow> vec \<Rightarrow> jsnum \<Rightarrow> collision_response option"
  circlePolygonIntersection ::
    "vec \<Rightarrow> jsnum \<Rightarrow> vec \<Rightarrow> vec list \<Rightarrow> vec list \<Rightarrow> collision_response option"
  equalLayer :: "int \<Rightarrow> int \<Rightarrow> bool"
  object_damage :: "objid \<Rightarrow> jsnum \<Rightarrow> world \<Rightarrow> world"
  handleStairInteraction :: "objid \<Rightarrow> world \<Rightarrow> projectile \<Rightarrow> projectile"

section \<open>Collision response\<close>

definition this_hitbox :: "projectile \<Rightarrow> hitbox" where
  "this_hitbox p = Circle (position p) (radius p)"

text \<open>The end of the inner \<open>handleCollision\<close>: a resolution translates the projectile.\<close>

definition push_out ::
  "projectile \<Rightarrow> collision_response option \<Rightarrow> projectile \<times> collision_response option" where
  "push_out p collision =
     (case collision of
        None \<Rightarrow> (p, None)
      | Some c \<Rightarrow> (p\<lparr>position := Vec_add (position p) (Vec_scale (dir c) (pen c))\<rparr>, Some c))"

definition flip_dir :: "collision_response \<Rightarrow> collision_response" where
  "flip_dir c = c\<lparr>dir := Vec_create (jneg (vec_x (dir c))) (jneg (vec_y (dir c)))\<rparr>"

text \<open>
  The inner closure \<open>handleCollision(hitbox)\<close>, lines 347 to 397: \<open>resolve\<close> is one call,
  \<open>resolve_group\<close> the loop over the members of a group, with the local \<open>collision\<close>
  as its last argument.
\<close>

fun resolve :: "env \<Rightarrow> hitbox \<Rightarrow> projectile \<Rightarrow> projectile \<times> collision_response option"
and resolve_group ::
  "env \<Rightarrow> hitbox list \<Rightarrow> projectile \<Rightarrow> collision_response option
    \<Rightarrow> projectile \<times> collision_response option"
where
  "resolve env (Circle c r) p =
     push_out p (circleCircleIntersection env c r (position p) (radius p))"
| "resolve env (Rect mn mx) p =
     push_out p (map_option flip_dir (rectCircleIntersection env mn mx (position p) (radius p)))"
| "resolve env (Polygon c pts ns) p =
     push_out p
       (map_option flip_dir (circlePolygonIntersection env (position p) (radius p) c pts ns))"
| "resolve env (Group hs) p =
     (case resolve_group env hs p None of (p', collision) \<Rightarrow> push_out p' collision)"
| "resolve_group env [] p collision = (p, collision)"
| "resolve_group env (target # hs) p collision =
     (if collidesWith env target (this_hitbox p)
      then (case resolve env target p of (p', c') \<Rightarrow> resolve_group env hs p' c')
      else resolve_group env hs p collision)"

text \<open>Lines 400 to 406: the reflection of the velocity off \<open>collision.dir\<close>.\<close>

definition reflect :: "vec \<Rightarrow> vec \<Rightarrow> vec" where
  "reflect v n =
     (let len = Vec_length v;
          d = Vec_scale v (jdiv (Fin 1) len);
          dot = Vec_dotProduct d n;
          newDir = Vec_add (Vec_scale n (jmul dot (Fin (- 2)))) d
      in Vec_scale newDir (jmul len (Fin 0.4)))"

text \<open>The guard of lines 326 to 340.\<close>

definition bails :: "env \<Rightarrow> world \<Rightarrow> objid \<Rightarrow> projectile \<Rightarrow> bool" where
  "bails env w object p =
     (let isObstacle = (category (objects env object) = Obstacle);
          isPlayer = (category (objects env object) = Player);
          isBuilding = (category (objects env object) = Building)
      in obj_dead (w object)
         \<or> ((\<not> (isObstacle \<or> isBuilding)
              \<or> (isObstacle \<and> isStair (objects env object))
              \<or> \<not> collidable (w object)
              \<or> obj_hitbox (w object) = None)
            \<and> (\<not> isPlayer \<or> (\<not> collideWithOwner p \<and> object = owner p))))"

definition handleCollision :: "env \<Rightarrow> world \<Rightarrow> objid \<Rightarrow> projectile \<Rightarrow> projectile" where
  "handleCollision env w object p =
     (if bails env w object p then p
      else case obj_hitbox (w object) of
        None \<Rightarrow> p
      | Some hb \<Rightarrow>
          if \<not> collidesWith env hb (this_hitbox p)
             \<or> \<not> equalLayer env (layer p) (obj_layer (w object))
          then p
          else (case resolve env hb p of
                  (p', None) \<Rightarrow> p'
                | (p', Some collision) \<Rightarrow>
                    p'\<lparr>velocity := reflect (velocity p') (dir collision)\<rparr>))"

section \<open>One tick\<close>

text \<open>
  What a tick does to the outside is kept as a trace, in the order of the calls:
  \<open>Damaged object amount\<close> is a call of \<open>object.damage\<close>, \<open>Collided object\<close> a call of
  \<open>this.handleCollision(object)\<close>, \<open>StairInteraction object\<close> a call of
  \<open>object.handleStairInteraction(this)\<close>.
\<close>

datatype event = Damaged objid jsnum | Collided objid | StairInteraction objid

fun reaction :: "event \<Rightarrow> bool" where
  "reaction (Damaged object amount) = False"
| "reaction (Collided object) = True"
| "reaction (StairInteraction object) = True"

fun event_object :: "event \<Rightarrow> objid" where
  "event_object (Damaged object amount) = object"
| "event_object (Collided object) = object"
| "event_object (StairInteraction object) = object"

text \<open>\<open>closestIntersection\<close>; its \<open>object\<close> starts as the projectile itself, here \<open>None\<close>.\<close>

record closest_intersection =
  ci_dist :: jsnum
  ci_position :: vec
  ci_normal :: vec
  ci_intersected :: bool
  ci_object :: "objid option"

text \<open>
  The state of the candidate scan. \<open>threw\<close> records the one place where the source
  would throw: line 243 dereferences \<open>object.hitbox!\<close>, which is undefined for an object
  that passes the guard without a hitbox (a player without one); the scan stops there.
\<close>

record scan =
  proj :: projectile
  wld :: world
  damagedThisTick :: "objid set"
  closestIntersection :: closest_intersection
  trace :: "event list"
  threw :: bool

definition Number_MAX_VALUE :: jsnum where
  "Number_MAX_VALUE = Fin ((2 - 1 / 2 ^ 52) * 2 ^ 1023)"

text \<open>\<open>squaredThresholds\<close>.\<close>

definition threshold_impactDamage :: jsnum where
  "threshold_impactDamage = Fin 0.0009"

definition threshold_flyover :: jsnum where
  "threshold_flyover = Fin 0.0009"

definition threshold_highFlyover :: jsnum where
  "threshold_highFlyover = Fin 0.0016"

definition calculateSafeDisplacement :: "projectile \<Rightarrow> jsnum \<Rightarrow> vec" where
  "calculateSafeDisplacement p halfDt =
     (let displacement = Vec_scale (velocity p) halfDt;
          displacementLength = Vec_length displacement;
          maxDisplacement = jmul (speedCap (defn p)) halfDt
      in if jgt displacementLength maxDisplacement
         then Vec_scale displacement (jdiv maxDisplacement displacementLength)
         else displacement)"

fun flyoverCondMap :: "jsnum \<Rightarrow> flyover_pref \<Rightarrow> bool" where
  "flyoverCondMap currentSquaredVel Always = jge currentSquaredVel threshold_flyover"
| "flyoverCondMap currentSquaredVel Sometimes = jge currentSquaredVel threshold_highFlyover"
| "flyoverCondMap currentSquaredVel Never = False"

definition canFlyOver :: "env \<Rightarrow> jsnum \<Rightarrow> world \<Rightarrow> projectile \<Rightarrow> objid \<Rightarrow> bool" where
  "canFlyOver env currentSquaredVel w p object =
     (if category (objects env object) = Obstacle
      then obj_door (w object) \<noteq> Some False
           \<and> (obj_layer (w object) < layer p
                \<or> flyoverCondMap currentSquaredVel (allowFlyover (objects env object)))
      else flyoverCondMap currentSquaredVel (allowFlyover (objects env object)))"

text \<open>
  The fields of the projectile that are private or read-only in the source cannot be
  changed by \<open>handleStairInteraction\<close>: the projectile after the hook is what the hook
  returns, with those fields as they were.
\<close>

definition keep_private :: "projectile \<Rightarrow> projectile \<Rightarrow> projectile" where
  "keep_private p q =
     q\<lparr>defn := defn p, owner := owner p, health := health p,
       angularVelocity := angularVelocity p, spawnTime := spawnTime p,
       collideWithOwner := collideWithOwner p, airborne := airborne p,
       activated := activated p, currentlyAbove := currentlyAbove p,
       currentDrag := currentDrag p, damagedLastTick := damagedLastTick p\<rparr>"

text \<open>The guard of lines 223 to 237.\<close>

definition ignored :: "env \<Rightarrow> bool \<Rightarrow> world \<Rightarrow> projectile \<Rightarrow> objid \<Rightarrow> bool" where
  "ignored env shouldDealImpactDamage w p object =
     (let isObstacle = (category (objects env object) = Obstacle);
          isPlayer = (category (objects env object) = Player);
          isBuilding = (category (objects env object) = Building)
      in obj_dead (w object)
         \<or> ((\<not> (isObstacle \<or> isBuilding)
              \<or> \<not> collidable (w object)
              \<or> obj_hitbox (w object) = None)
            \<and> (\<not> isPlayer
               \<or> \<not> shouldDealImpactDamage
               \<or> (\<not> collideWithOwner p \<and> object = owner p))))"

text \<open>Lines 298 and 300.\<close>

definition collide :: "env \<Rightarrow> objid \<Rightarrow> scan \<Rightarrow> scan" where
  "collide env object s =
     (let p = handleCollision env (wld s) object (proj s)
      in s\<lparr>proj := p\<lparr>angularVelocity := jmul (angularVelocity p) (Fin 0.6)\<rparr>,
           trace := trace s @ [Collided object]\<rparr>)"

text \<open>Line 286: \<open>undefined * n\<close> is \<open>NaN\<close>.\<close>

definition impact_amount :: "env \<Rightarrow> projectile \<Rightarrow> objid \<Rightarrow> jsnum" where
  "impact_amount env p object =
     (case impactDamage (defn p) of
        None \<Rightarrow> NaN
      | Some d \<Rightarrow>
          jmul d
            (case (if category (objects env object) = Obstacle
                   then obstacleMultiplier (defn p) else None) of
               None \<Rightarrow> Fin 1
             | Some m \<Rightarrow> m))"

text \<open>Lines 269 to 300: the closest swept intersection, the damage, the response.\<close>

definition react ::
  "env \<Rightarrow> vec \<Rightarrow> bool \<Rightarrow> objid \<Rightarrow> intersection_response option \<Rightarrow> bool \<Rightarrow> scan \<Rightarrow> scan" where
  "react env oldPosition shouldDealImpactDamage object lineIntersection collidingWithObject s =
     (let s1 =
        (case lineIntersection of
           None \<Rightarrow> s
         | Some li \<Rightarrow>
             (let dist = Geometry_distanceSquared oldPosition (point li)
              in if jless dist (ci_dist (closestIntersection s))
                 then s\<lparr>closestIntersection :=
                        \<lparr>ci_dist = dist, ci_position = point li, ci_normal = normal li,
                         ci_intersected = True, ci_object = Some object\<rparr>\<rparr>
                 else s))
      in if \<not> collidingWithObject then s1
         else if shouldDealImpactDamage \<and> object \<notin> damagedLastTick (proj s1)
         then (let amount = impact_amount env (proj s1) object;
                   s2 = s1\<lparr>wld := object_damage env object amount (wld s1),
                           trace := trace s1 @ [Damaged object amount]\<rparr>
               in if obj_dead (wld s2 object) then s2
                  else collide env object
                         (s2\<lparr>damagedThisTick := insert object (damagedThisTick s2)\<rparr>))
         else collide env object s1)"

text \<open>Lines 251 to 256: the object is flown over, or it slows the projectile down.\<close>

definition mark_flyover :: "env \<Rightarrow> jsnum \<Rightarrow> world \<Rightarrow> objid \<Rightarrow> projectile \<Rightarrow> projectile" where
  "mark_flyover env currentSquaredVel w object p =
     (if canFlyOver env currentSquaredVel w p object
      then p\<lparr>currentlyAbove := insert object (currentlyAbove p)\<rparr>
      else p\<lparr>currentDrag := Harsh\<rparr>)"

text \<open>The body of the loop of line 219, for one candidate.\<close>

definition scan_object :: "env \<Rightarrow> vec \<Rightarrow> jsnum \<Rightarrow> bool \<Rightarrow> objid \<Rightarrow> scan \<Rightarrow> scan" where
  "scan_object env oldPosition currentSquaredVel shouldDealImpactDamage object s =
     (if threw s then s
      else if ignored env shouldDealImpactDamage (wld s) (proj s) object then s
      else case obj_hitbox (wld s object) of
        None \<Rightarrow> s\<lparr>threw := True\<rparr>
      | Some hb \<Rightarrow>
          (let p = proj s;
               isObstacle = (category (objects env object) = Obstacle);
               isBuilding = (category (objects env object) = Building);
               lineIntersection = intersectsLine env hb oldPosition (position p);
               isGeometricCollision = collidesWith env (this_hitbox p) hb;
               collidingWithObject = (lineIntersection \<noteq> None \<or> isGeometricCollision)
           in if isObstacle \<or> isBuilding
              then
                if collidingWithObject
                then (let isAbove = canFlyOver env currentSquaredVel (wld s) p object;
                          p1 = mark_flyover env currentSquaredVel (wld s) object p
                      in if isObstacle \<and> isStair (objects env object)
                         then s\<lparr>proj := keep_private p1
                                          (handleStairInteraction env object (wld s) p1),
                                trace := trace s @ [StairInteraction object]\<rparr>
                         else if isAbove \<or> object \<in> currentlyAbove p1
                         then s\<lparr>proj := p1\<rparr>
                         else react env oldPosition shouldDealImpactDamage object
                                lineIntersection collidingWithObject
                                (s\<lparr>proj := p1\<lparr>currentlyAbove := currentlyAbove p1 - {object}\<rparr>\<rparr>))
                else react env oldPosition shouldDealImpactDamage object
                       lineIntersection collidingWithObject
                       (s\<lparr>proj := p\<lparr>currentlyAbove := currentlyAbove p - {object}\<rparr>\<rparr>)
              else react env oldPosition shouldDealImpactDamage object
                     lineIntersection collidingWithObject s))"

text \<open>
  Modelled from the spec: the spatial query returns the set of the overlapping objects
  (section 2), so the loop meets each object once; \<open>set_order\<close> is the order of
  iteration of a set filled in the order of the list.
\<close>

definition set_order :: "objid list \<Rightarrow> objid list" where
  "set_order xs = rev (remdups (rev xs))"

text \<open>Lines 303 to 317. The notifications of lines 318 and 319 are not modelled.\<close>

definition finish :: "env \<Rightarrow> scan \<Rightarrow> scan" where
  "finish env s =
     (if threw s then s
      else
        (let selfRadius = radius (proj s);
             s1 = (if ci_intersected (closestIntersection s)
                   then (let p = proj s;
                             p1 = p\<lparr>position :=
                                     Vec_add (Vec_scale (ci_normal (closestIntersection s)) selfRadius)
                                       (position p)\<rparr>
                         in case ci_object (closestIntersection s) of
                              None \<Rightarrow> s\<lparr>proj := p1\<rparr>
                            | Some object \<Rightarrow>
                                s\<lparr>proj := handleCollision env (wld s) object p1,
                                  trace := trace s @ [Collided object]\<rparr>)
                   else s);
             p2 = proj s1;
             p3 = p2\<lparr>position :=
                     Vec_create
                       (Numeric_clamp (vec_x (position p2)) selfRadius
                          (jsub (map_width env) selfRadius))
                       (vec_y (position p2))\<rparr>;
             p4 = p3\<lparr>position :=
                     Vec_create
                       (vec_x (position p3))
                       (Numeric_clamp (vec_y (position p3)) selfRadius
                          (jsub (map_height env) selfRadius))\<rparr>;
             p5 = p4\<lparr>collideWithOwner :=
                     (collideWithOwner p4 \<or> jge (jsub (now env) (spawnTime p4)) (Fin 250))\<rparr>
         in s1\<lparr>proj := p5\<lparr>damagedLastTick := damagedThisTick s1\<rparr>\<rparr>))"

text \<open>Lines 156 to 180: the integration and the threshold classification.\<close>

definition integrate :: "env \<Rightarrow> projectile \<Rightarrow> projectile" where
  "integrate env p =
     (let halfDt = jmul (Fin 0.5) (dt env);
          p1 = p\<lparr>position := Vec_add (position p) (calculateSafeDisplacement p halfDt)\<rparr>;
          p2 = p1\<lparr>velocity :=
                  Vec_scale (velocity p1)
                    (jdiv (Fin 1) (jadd (Fin 1) (jmul (dt env) (drag_value (currentDrag p1)))))\<rparr>;
          p3 = p2\<lparr>position := Vec_add (position p2) (calculateSafeDisplacement p2 halfDt)\<rparr>
      in p3\<lparr>rotation :=
             Angle_normalize env (jadd (rotation p3) (jmul (angularVelocity p3) (dt env)))\<rparr>)"

definition classify :: "env \<Rightarrow> projectile \<Rightarrow> projectile" where
  "classify env p =
     (let remainAirborne = jge (Vec_squaredLength (velocity p)) threshold_impactDamage
      in if \<not> remainAirborne
         then (let q = p\<lparr>airborne := False\<rparr>
               in if floor_overlay env (position q) (layer q)
                  then q\<lparr>currentDrag := Harsh\<rparr> else q)
         else p)"

text \<open>The scan before its first candidate: lines 209 to 217.\<close>

definition scan_start :: "world \<Rightarrow> projectile \<Rightarrow> scan" where
  "scan_start w p =
     \<lparr>proj = p, wld = w, damagedThisTick = {},
      closestIntersection =
        \<lparr>ci_dist = Number_MAX_VALUE, ci_position = Vec_create (Fin 0) (Fin 0),
         ci_normal = Vec_create (Fin 0) (Fin 0), ci_intersected = False, ci_object = None\<rparr>,
      trace = [], threw = False\<rparr>"

text \<open>The candidates of the tick: the answer of the grid at line 219, asked once.\<close>

definition candidates :: "env \<Rightarrow> projectile \<Rightarrow> objid list" where
  "candidates env p =
     (let p5 = classify env (integrate env p)
      in set_order (intersectsHitbox env (this_hitbox p5) (Some (layer p5))))"

text \<open>
  \<open>scan_candidates env w p xs\<close> is the scan of a tick that started with the projectile
  \<open>p\<close>, after the loop has met the candidates \<open>xs\<close>. The loop reads what lines 158 to
  172 computed: the old position, the squared speed after the integration, and
  whether impact damage is dealt.
\<close>

definition scan_candidates :: "env \<Rightarrow> world \<Rightarrow> projectile \<Rightarrow> objid list \<Rightarrow> scan" where
  "scan_candidates env w p xs =
     (let oldPosition = position p;
          p4 = integrate env p;
          currentSquaredVel = Vec_squaredLength (velocity p4);
          remainAirborne = jge currentSquaredVel threshold_impactDamage;
          shouldDealImpactDamage = (impactDamage (defn p4) \<noteq> None \<and> remainAirborne);
          p5 = classify env p4
      in fold (scan_object env oldPosition currentSquaredVel shouldDealImpactDamage) xs
           (scan_start w p5))"

text \<open>\<open>update\<close>, lines 150 to 320. A planted device (\<open>c4\<close>) only stops being airborne.\<close>

definition update :: "env \<Rightarrow> world \<Rightarrow> projectile \<Rightarrow> scan" where
  "update env w p =
     (if c4 (defn p) then scan_start w (p\<lparr>airborne := False\<rparr>)
      else finish env (scan_candidates env w p (candidates env p)))"

text \<open>
  Whether \<open>object\<close> is found colliding when the loop, in the state \<open>s\<close>, tests it
  (line 247), for a tick that started with the projectile at \<open>oldPosition\<close>.
\<close>

definition collidingWithObject :: "env \<Rightarrow> vec \<Rightarrow> scan \<Rightarrow> objid \<Rightarrow> bool" where
  "collidingWithObject env oldPosition s object =
     (case obj_hitbox (wld s object) of
        None \<Rightarrow> False
      | Some hb \<Rightarrow>
          intersectsLine env hb oldPosition (position (proj s)) \<noteq> None
          \<or> collidesWith env (this_hitbox (proj s)) hb)"

section \<open>The life of a projectile\<close>

text \<open>
  The projectile in its game: the world objects, the list \<open>source.owner.c4s\<close> (of
  projectile identifiers, \<open>this_id\<close> being this projectile's), whether the game still
  holds the projectile, the delays of the pending \<open>setTimeout\<close> callbacks of
  \<open>detonate\<close>, and the calls of \<open>game.addExplosion\<close> made so far (explosion, position,
  thrower, layer).
\<close>

record game =
  thrown :: projectile
  this_id :: objid
  g_world :: world
  c4s :: "objid list"
  registered :: bool
  timers :: "jsnum list"
  explosions :: "(string \<times> vec \<times> objid \<times> int) list"

text \<open>
  The constructor, lines 79 to 106. The inherited fields are as the base object leaves
  them (not under src/): alive, rotation 0. The grid is queried without a layer.
\<close>

definition new_projectile ::
  "env \<Rightarrow> world \<Rightarrow> vec \<Rightarrow> int \<Rightarrow> throwable_definition \<Rightarrow> objid \<Rightarrow> jsnum option \<Rightarrow> projectile" where
  "new_projectile env w pos lay d own rad =
     (let p0 = \<lparr>defn = d, owner = own, health = None, position = pos,
                radius = (case rad of None \<Rightarrow> Fin 1 | Some r \<Rightarrow> r),
                rotation = Fin 0, layer = lay, dead = False,
                velocity = Vec_create (Fin 0) (Fin 0), angularVelocity = Fin 0.0035,
                spawnTime = now env, collideWithOwner = False, airborne = True,
                activated = False, currentlyAbove = {}, currentDrag = Normal,
                damagedLastTick = {}\<rparr>;
          p1 = fold (handleCollision env w)
                 (set_order (intersectsHitbox env (this_hitbox p0) None)) p0
      in case def_health d of
           None \<Rightarrow> p1
         | Some h \<Rightarrow> if truthy h then p1\<lparr>health := Some h\<rparr> else p1)"

definition construct ::
  "env \<Rightarrow> world \<Rightarrow> objid list \<Rightarrow> objid \<Rightarrow> vec \<Rightarrow> int \<Rightarrow> throwable_definition \<Rightarrow> objid
    \<Rightarrow> jsnum option \<Rightarrow> game" where
  "construct env w owner_c4s pid pos lay d own rad =
     \<lparr>thrown = new_projectile env w pos lay d own rad, this_id = pid, g_world = w,
      c4s = (if c4 d then owner_c4s @ [pid] else owner_c4s),
      registered = True, timers = [], explosions = []\<rparr>"

text \<open>
  Modelled from the spec: \<open>game.removeProjectile\<close> is not under src/; deregistering the
  projectile from the world is its destruction (section 3, Lifecycle; section 4.4), so
  the projectile leaves the game and is dead.
\<close>

definition removeProjectile :: "game \<Rightarrow> game" where
  "removeProjectile g = g\<lparr>thrown := (thrown g)\<lparr>dead := True\<rparr>, registered := False\<rparr>"

text \<open>\<open>c4s.splice(c4s.indexOf(this), 1)\<close>: \<open>indexOf\<close> of an absent element is \<open>-1\<close>, and
  \<open>splice(-1, 1)\<close> removes the last element.\<close>

definition splice_indexOf :: "objid \<Rightarrow> objid list \<Rightarrow> objid list" where
  "splice_indexOf a xs = (if a \<in> set xs then remove1 a xs else butlast xs)"

text \<open>\<open>damage\<close>, lines 410 to 420.\<close>

definition damage :: "jsnum \<Rightarrow> game \<Rightarrow> game" where
  "damage amount g =
     (case health (thrown g) of
        None \<Rightarrow> g
      | Some h \<Rightarrow>
          if \<not> truthy h then g
          else (let h' = jsub h amount;
                    g1 = g\<lparr>thrown := (thrown g)\<lparr>health := Some h'\<rparr>\<rparr>
                in if jle h' (Fin 0)
                   then removeProjectile (g1\<lparr>c4s := splice_indexOf (this_id g1) (c4s g1)\<rparr>)
                   else g1))"

text \<open>\<open>detonate\<close>, lines 125 to 148: the call arms the projectile and leaves a timer
  pending; \<open>detonation_callback\<close> is the body of its callback.\<close>

definition detonate :: "jsnum \<Rightarrow> game \<Rightarrow> game" where
  "detonate delay g = g\<lparr>thrown := (thrown g)\<lparr>activated := True\<rparr>, timers := timers g @ [delay]\<rparr>"

definition detonation_callback :: "game \<Rightarrow> game" where
  "detonation_callback g =
     (if dead (thrown g) then g
      else (let g1 = removeProjectile g
            in case explosion (defn (thrown g1)) of
                 None \<Rightarrow> g1
               | Some e \<Rightarrow>
                   g1\<lparr>explosions := explosions g1 @
                        [(e, position (thrown g1), owner (thrown g1), layer (thrown g1))]\<rparr>))"

text \<open>The \<open>i\<close>-th pending timer fires: its callback runs and the timer is gone.\<close>

definition fire :: "nat \<Rightarrow> game \<Rightarrow> game" where
  "fire i g =
     (if i < length (timers g)
      then (detonation_callback g)\<lparr>timers := take i (timers g) @ drop (Suc i) (timers g)\<rparr>
      else g)"

text \<open>Every pending timer fires, the earliest scheduled first.\<close>

fun fire_all :: "nat \<Rightarrow> game \<Rightarrow> game" where
  "fire_all 0 g = g"
| "fire_all (Suc n) g = fire_all n (fire 0 g)"

definition tick :: "env \<Rightarrow> game \<Rightarrow> game" where
  "tick env g =
     (let r = update env (g_world g) (thrown g)
      in g\<lparr>thrown := proj r, g_world := wld r\<rparr>)"

datatype operation = Tick env | Damage jsnum | Detonate jsnum | Fire nat

fun step :: "operation \<Rightarrow> game \<Rightarrow> game" where
  "step (Tick env) g = tick env g"
| "step (Damage amount) g = damage amount g"
| "step (Detonate delay) g = detonate delay g"
| "step (Fire i) g = fire i g"

definition run :: "operation list \<Rightarrow> game \<Rightarrow> game" where
  "run ops g = fold step ops g"

text \<open>The fields of the projectile that no step of the candidate scan assigns.\<close>

definition loop_constants ::
  "projectile \<Rightarrow> throwable_definition \<times> objid \<times> jsnum option \<times> jsnum \<times> bool \<times> bool \<times> bool \<times> objid set" where
  "loop_constants p =
     (defn p, owner p, health p, spawnTime p, collideWithOwner p, airborne p, activated p,
      damagedLastTick p)"

text \<open>
  \<open>marked object p q\<close>: \<open>q\<close> is \<open>p\<close> up to its drag, which may have become harsh,
  and to the membership of \<open>object\<close> in \<open>currentlyAbove\<close>, the two things that lines 249
  to 267 assign.
\<close>

definition marked :: "objid \<Rightarrow> projectile \<Rightarrow> projectile \<Rightarrow> bool" where
  "marked object p q =
     (q\<lparr>currentlyAbove := {}, currentDrag := Normal\<rparr>
        = p\<lparr>currentlyAbove := {}, currentDrag := Normal\<rparr>
      \<and> currentlyAbove q - {object} = currentlyAbove p - {object}
      \<and> (currentDrag q = currentDrag p \<or> currentDrag q = Harsh))"

text \<open>The projectile is inside the bounds into which lines 313 and 314 clamp it.\<close>

definition in_bounds :: "env \<Rightarrow> projectile \<Rightarrow> bool" where
  "in_bounds env p =
     (jle (radius p) (vec_x (position p))
      \<and> jle (vec_x (position p)) (jsub (map_width env) (radius p))
      \<and> jle (radius p) (vec_y (position p))
      \<and> jle (vec_y (position p)) (jsub (map_height env) (radius p)))"

text \<open>
  The projectile after a sequence of ticks, each with its own collaborators and its own
  state of the world.
\<close>

fun after_ticks :: "(env \<times> world) list \<Rightarrow> projectile \<Rightarrow> projectile" where
  "after_ticks [] p = p"
| "after_ticks (t # ts) p = after_ticks ts (proj (update (fst t) (snd t) p))"

section \<open>The reflection law of the specification\<close>

text \<open>The law as the specification words it: \<open>v' = (v - 2(v\<cdot>n)n) * 0.4\<close>.\<close>

definition reflection_law :: "vec \<Rightarrow> vec \<Rightarrow> vec" where
  "reflection_law v n =
     Vec_scale (Vec_sub v (Vec_scale n (jmul (Fin 2) (Vec_dotProduct v n)))) (Fin 0.4)"

section \<open>A sample world\<close>

text \<open>
  Concrete collaborators, for evaluating the model: circles and groups of circles, with
  the circle tests of plane geometry (two circles collide when their centres are closer
  than the sum of their radii; the resolution points from the first centre to the second
  and its depth is the overlap). Rectangles and polygons never collide here, no segment
  meets a hitbox, layers are equal when they are the same, damage changes nothing, the
  angle is kept as it is, and the grid returns the candidates it is given.
\<close>

fun circles_of :: "hitbox \<Rightarrow> (vec \<times> jsnum) list" where
  "circles_of (Circle c r) = [(c, r)]"
| "circles_of (Rect mn mx) = []"
| "circles_of (Polygon c pts ns) = []"
| "circles_of (Group hs) = concat (map circles_of hs)"

definition sample_circleCollision :: "vec \<times> jsnum \<Rightarrow> vec \<times> jsnum \<Rightarrow> bool" where
  "sample_circleCollision a b =
     jgt (jmul (jadd (snd a) (snd b)) (jadd (snd a) (snd b)))
       (Geometry_distanceSquared (fst a) (fst b))"

definition sample_collidesWith :: "hitbox \<Rightarrow> hitbox \<Rightarrow> bool" where
  "sample_collidesWith a b =
     list_ex (\<lambda>ca. list_ex (sample_circleCollision ca) (circles_of b)) (circles_of a)"

definition sample_circleCircleIntersection ::
  "vec \<Rightarrow> jsnum \<Rightarrow> vec \<Rightarrow> jsnum \<Rightarrow> collision_response option" where
  "sample_circleCircleIntersection centerA radiusA centerB radiusB =
     (let r = jadd radiusA radiusB;
          toP1 = Vec_sub centerB centerA;
          distSqr = Vec_squaredLength toP1
      in if jless distSqr (jmul r r)
         then Some \<lparr>dir = Vec_scale toP1 (jdiv (Fin 1) (Vec_length toP1)),
                    pen = jsub r (Vec_length toP1)\<rparr>
         else None)"

definition sample_env :: "jsnum \<Rightarrow> jsnum \<Rightarrow> objid list \<Rightarrow> (objid \<Rightarrow> object_static) \<Rightarrow> env" where
  "sample_env d t cands statics =
     \<lparr>dt = d, now = t, map_width = Fin 1000, map_height = Fin 1000,
      floor_overlay = (\<lambda>pos lay. False),
      intersectsHitbox = (\<lambda>hb lay. cands),
      objects = statics,
      Angle_normalize = (\<lambda>a. a),
      collidesWith = sample_collidesWith,
      intersectsLine = (\<lambda>hb a b. None),
      circleCircleIntersection = sample_circleCircleIntersection,
      rectCircleIntersection = (\<lambda>mn mx c r. None),
      circlePolygonIntersection = (\<lambda>c r m pts ns. None),
      equalLayer = (\<lambda>a b. a = b),
      object_damage = (\<lambda>object amount w. w),
      handleStairInteraction = (\<lambda>object w p. p)\<rparr>"

definition sample_static :: "category \<Rightarrow> flyover_pref \<Rightarrow> object_static" where
  "sample_static k f = \<lparr>category = k, allowFlyover = f, isStair = False\<rparr>"

definition sample_object :: "vec \<Rightarrow> jsnum \<Rightarrow> object_state" where
  "sample_object c r =
     \<lparr>obj_dead = False, collidable = True, obj_hitbox = Some (Circle c r), obj_layer = 0,
      obj_door = None\<rparr>"

definition sample_definition :: throwable_definition where
  "sample_definition =
     \<lparr>c4 = False, speedCap = Fin 0.15, impactDamage = Some (Fin 1),
      obstacleMultiplier = Some (Fin 20), def_health = None,
      explosion = Some ''frag_grenade_explosion''\<rparr>"

definition sample_projectile :: "vec \<Rightarrow> projectile" where
  "sample_projectile v =
     \<lparr>defn = sample_definition, owner = 2, health = None,
      position = Vec_create (Fin 100) (Fin 100), radius = Fin 1, rotation = Fin 0, layer = 0,
      dead = False, velocity = v, angularVelocity = Fin 0.0035, spawnTime = Fin 0,
      collideWithOwner = False, airborne = True, activated = False, currentlyAbove = {},
      currentDrag = Normal, damagedLastTick = {}\<rparr>"

text \<open>A wall: obstacle 1, a circle of radius 3 around (103, 100), never flown over. Object 2
  is a player, object 3 an obstacle that is always flown over (a table).\<close>

definition wall_statics :: "objid \<Rightarrow> object_static" where
  "wall_statics object = (if object = 1 then sample_static Obstacle Never
     else if object = 2 then sample_static Player Never
     else if object = 3 then sample_static Obstacle Always
     else sample_static OtherObject Never)"

definition wall_world :: world where
  "wall_world object = (if object = 1 then sample_object (Vec_create (Fin 103) (Fin 100)) (Fin 3)
     else (sample_object (Vec_create (Fin 500) (Fin 500)) (Fin 1)))"

text \<open>Three circles: one east of the sample projectile, one west of it, one far away.\<close>

definition circle_east :: hitbox where
  "circle_east = Circle (Vec_create (Fin 103) (Fin 100)) (Fin 3)"

definition circle_west :: hitbox where
  "circle_west = Circle (Vec_create (Fin 96) (Fin 100)) (Fin 3)"

definition circle_far :: hitbox where
  "circle_far = Circle (Vec_create (Fin 500) (Fin 500)) (Fin 1)"

text \<open>The sample projectile in a game with the wall, nothing pending.\<close>

definition sample_game :: "projectile \<Rightarrow> game" where
  "sample_game p =
     \<lparr>thrown = p, this_id = 7, g_world = wall_world, c4s = [], registered = True,
      timers = [], explosions = []\<rparr>"

text \<open>The sample projectile in flight, westwards, at 0.04 units per millisecond.\<close>

definition sample_flying :: projectile where
  "sample_flying = sample_projectile (Vec_create (Fin (- 0.04)) (Fin 0))"

text \<open>A world where the thrower, player 2, stands where the wall stood.\<close>

definition thrower_world :: world where
  "thrower_world object =
     (if object = 2 then sample_object (Vec_create (Fin 103) (Fin 100)) (Fin 3)
      else sample_object (Vec_create (Fin 500) (Fin 500)) (Fin 1))"

text \<open>A world where the table, obstacle 3, stands where the wall stood.\<close>

definition table_world :: world where
  "table_world object =
     (if object = 3 then sample_object (Vec_create (Fin 103) (Fin 100)) (Fin 3)
      else sample_object (Vec_create (Fin 500) (Fin 500)) (Fin 1))"

text \<open>The sample projectile, slow, and classified as above the table.\<close>

definition sample_landing :: projectile where
  "sample_landing =
     (sample_projectile (Vec_create (Fin (- 0.02)) (Fin 0)))\<lparr>currentlyAbove := {3}\<rparr>"

section \<open>Arithmetic and the reflection\<close>

lemma vec_eq_iff: "(a::vec) = b \<longleftrightarrow> vec_x a = vec_x b \<and> vec_y a = vec_y b"
  by (cases a, cases b) simp

lemma jadd_NaN [simp]: "jadd a NaN = NaN" "jadd NaN a = NaN"
  by (cases a; simp)+

lemma jmul_NaN [simp]: "jmul a NaN = NaN" "jmul NaN a = NaN"
  by (cases a; simp)+

lemma jdiv_NaN [simp]: "jdiv a NaN = NaN" "jdiv NaN a = NaN"
  by (cases a; simp)+

lemma finite_vec_cases:
  assumes "finite_vec n"
  obtains c d where "n = Vec_create (Fin c) (Fin d)"
proof -
  obtain a b where n: "n = Vec_create a b"
    by (cases n) (simp add: Vec_create_def)
  with assms obtain c d where "a = Fin c" "b = Fin d"
    by (cases a; cases b) (simp_all add: finite_vec_def Vec_create_def)
  with n that show thesis by simp
qed

lemma reflect_at_rest: "reflect (Vec_create (Fin 0) (Fin 0)) n = Vec_create NaN NaN"
  by (simp add: reflect_def Vec_length_def Vec_squaredLength_def Vec_create_def Vec_scale_def
      Vec_dotProduct_def Vec_add_def inf_of_sign_def Let_def)

lemma reflect_moving:
  assumes "a \<noteq> 0 \<or> b \<noteq> 0"
  shows "reflect (Vec_create (Fin a) (Fin b)) (Vec_create (Fin c) (Fin d))
       = reflection_law (Vec_create (Fin a) (Fin b)) (Vec_create (Fin c) (Fin d))"
proof -
  define l where "l = sqrt (a * a + b * b)"
  have "0 < a * a + b * b"
    using assms by (metis add_pos_nonneg add_nonneg_pos not_real_square_gt_zero zero_le_square)
  hence l: "l \<noteq> 0" "\<not> a * a + b * b < 0" using assms by (auto simp: l_def)
  have x: "(c * ((a * (1 / l) * c + b * (1 / l) * d) * - 2) + a * (1 / l)) * (l * 0.4)
          = (a - c * (2 * (a * c + b * d))) * 0.4"
    using l(1) by (simp add: field_simps)
  have y: "(d * ((a * (1 / l) * c + b * (1 / l) * d) * - 2) + b * (1 / l)) * (l * 0.4)
          = (b - d * (2 * (a * c + b * d))) * 0.4"
    using l(1) by (simp add: field_simps)
  show ?thesis
    using l x y
    by (simp add: reflect_def reflection_law_def Vec_length_def Vec_squaredLength_def
        Vec_create_def Vec_scale_def Vec_dotProduct_def Vec_add_def Vec_sub_def jsub_def
        Let_def l_def[symmetric])
qed

lemma push_out_velocity: "velocity (fst (push_out p c)) = velocity p"
  by (simp add: push_out_def split: option.splits)

lemma resolve_velocity:
  "velocity (fst (resolve env hb p)) = velocity p"
  "velocity (fst (resolve_group env hs p c)) = velocity p"
  by (induction env hb p and env hs p c rule: resolve_resolve_group.induct)
     (auto simp: push_out_velocity split: prod.splits)

lemma handleCollision_reflects:
  assumes "\<not> bails env w object p"
      and "obj_hitbox (w object) = Some hb"
      and "collidesWith env hb (this_hitbox p)"
      and "equalLayer env (layer p) (obj_layer (w object))"
      and "snd (resolve env hb p) = Some c"
  shows "velocity (handleCollision env w object p) = reflect (velocity p) (dir c)"
  using assms resolve_velocity(1)[of env hb p]
  by (auto simp: handleCollision_def split: prod.splits option.splits)

section \<open>Evaluating the samples\<close>

lemmas sample_defs = sample_env_def sample_static_def sample_object_def sample_definition_def
  sample_projectile_def wall_statics_def wall_world_def sample_collidesWith_def
  sample_circleCollision_def sample_circleCircleIntersection_def sample_flying_def
  thrower_world_def table_world_def sample_landing_def

lemmas vec_defs = Vec_create_def Vec_add_def Vec_sub_def Vec_scale_def Vec_dotProduct_def
  Vec_squaredLength_def Vec_length_def Geometry_distanceSquared_def jsub_def jgt_def jge_def

text \<open>The length of a vector along the first axis, without a square root to compute.\<close>

lemma Vec_length_axis: "Vec_length \<lparr>vec_x = Fin a, vec_y = Fin 0\<rparr> = Fin \<bar>a\<bar>"
  by (simp add: Vec_length_def Vec_squaredLength_def)

lemmas vec_ops = Vec_create_def Vec_add_def Vec_sub_def Vec_scale_def Vec_dotProduct_def
  Vec_squaredLength_def Geometry_distanceSquared_def jsub_def jgt_def jge_def Vec_length_axis

lemmas tick_defs = update_def scan_start_def candidates_def scan_candidates_def integrate_def
  classify_def calculateSafeDisplacement_def finish_def scan_object_def react_def collide_def
  handleCollision_def bails_def ignored_def canFlyOver_def mark_flyover_def impact_amount_def
  set_order_def this_hitbox_def threshold_impactDamage_def threshold_flyover_def
  threshold_highFlyover_def Numeric_clamp_def reflect_def push_out_def keep_private_def Let_def

section \<open>What the collision response and the scan leave alone\<close>

lemma push_out_frame: "(fst (push_out p c))\<lparr>position := x\<rparr> = p\<lparr>position := x\<rparr>"
  by (cases c) (simp_all add: push_out_def)

lemma resolve_frame:
  "(fst (resolve env hb p))\<lparr>position := x\<rparr> = p\<lparr>position := x\<rparr>"
  "(fst (resolve_group env hs p c))\<lparr>position := x\<rparr> = p\<lparr>position := x\<rparr>"
proof (induction env hb p and env hs p c arbitrary: x and x rule: resolve_resolve_group.induct)
  case (4 env hs p)
  obtain p' c' where r: "resolve_group env hs p None = (p', c')"
    by (cases "resolve_group env hs p None")
  with 4[of x] have "p'\<lparr>position := x\<rparr> = p\<lparr>position := x\<rparr>" by simp
  then show ?case using r push_out_frame[where p=p' and c=c' and x=x] by simp
next
  case (6 env target hs p collision)
  show ?case
  proof (cases "collidesWith env target (this_hitbox p)")
    case True
    obtain p' c' where r: "resolve env target p = (p', c')" by (cases "resolve env target p")
    with 6(1)[OF True, of x] have p': "p'\<lparr>position := x\<rparr> = p\<lparr>position := x\<rparr>" by simp
    have "(fst (resolve_group env hs p' c'))\<lparr>position := x\<rparr> = p'\<lparr>position := x\<rparr>"
      using 6(2)[OF True] r by simp
    with p' r True show ?thesis by simp
  next
    case False
    with 6(3) show ?thesis by simp
  qed
qed (simp_all add: push_out_frame)

lemma handleCollision_frame:
  "(handleCollision env w object p)\<lparr>position := x, velocity := y\<rparr>
   = p\<lparr>position := x, velocity := y\<rparr>"
proof (cases "handleCollision env w object p = p")
  case True
  then show ?thesis by simp
next
  case False
  then obtain hb where hb: "obj_hitbox (w object) = Some hb"
    by (auto simp: handleCollision_def split: option.splits if_splits)
  obtain p' c where r: "resolve env hb p = (p', c)" by (cases "resolve env hb p")
  with resolve_frame(1)[where env=env and hb=hb and p=p and x=x] have "p'\<lparr>position := x\<rparr> = p\<lparr>position := x\<rparr>"
    by simp
  then have "p'\<lparr>position := x, velocity := y\<rparr> = p\<lparr>position := x, velocity := y\<rparr>"
    by simp
  then show ?thesis
    using hb r by (simp add: handleCollision_def split: option.splits)
qed

lemma handleCollision_constants [simp]:
  "loop_constants (handleCollision env w object p) = loop_constants p"
  "angularVelocity (handleCollision env w object p) = angularVelocity p"
  "currentlyAbove (handleCollision env w object p) = currentlyAbove p"
  "currentDrag (handleCollision env w object p) = currentDrag p"
  "radius (handleCollision env w object p) = radius p"
  "layer (handleCollision env w object p) = layer p"
  "rotation (handleCollision env w object p) = rotation p"
proof -
  let ?q = "handleCollision env w object p"
  have f: "?q\<lparr>position := position p, velocity := velocity p\<rparr> = p"
    using handleCollision_frame[where env=env and w=w and object=object and p=p and x="position p" and y="velocity p"] by simp
  show "loop_constants ?q = loop_constants p"
    using arg_cong[OF f, of loop_constants] by (simp add: loop_constants_def)
  show "angularVelocity ?q = angularVelocity p"
    using arg_cong[OF f, of angularVelocity] by simp
  show "currentlyAbove ?q = currentlyAbove p"
    using arg_cong[OF f, of currentlyAbove] by simp
  show "currentDrag ?q = currentDrag p"
    using arg_cong[OF f, of currentDrag] by simp
  show "radius ?q = radius p"
    using arg_cong[OF f, of radius] by simp
  show "layer ?q = layer p"
    using arg_cong[OF f, of layer] by simp
  show "rotation ?q = rotation p"
    using arg_cong[OF f, of rotation] by simp
qed

section \<open>One step of the candidate scan\<close>

lemma fold_invariant:
  assumes "P s" and "\<And>x s. x \<in> set xs \<Longrightarrow> P s \<Longrightarrow> P (f x s)"
  shows "P (fold f xs s)"
  using assms by (induction xs arbitrary: s) simp_all

lemma keep_private_constants [simp]:
  "loop_constants (keep_private p q) = loop_constants p"
  "currentlyAbove (keep_private p q) = currentlyAbove p"
  "currentDrag (keep_private p q) = currentDrag p"
  "angularVelocity (keep_private p q) = angularVelocity p"
  by (simp_all add: keep_private_def loop_constants_def)

lemma loop_constants_simps [simp]:
  "loop_constants (p\<lparr>position := x\<rparr>) = loop_constants p"
  "loop_constants (p\<lparr>velocity := v\<rparr>) = loop_constants p"
  "loop_constants (p\<lparr>rotation := r\<rparr>) = loop_constants p"
  "loop_constants (p\<lparr>angularVelocity := a\<rparr>) = loop_constants p"
  "loop_constants (p\<lparr>currentlyAbove := A\<rparr>) = loop_constants p"
  "loop_constants (p\<lparr>currentDrag := d\<rparr>) = loop_constants p"
  by (simp_all add: loop_constants_def)

lemma collide_simps [simp]:
  "loop_constants (proj (collide env object s)) = loop_constants (proj s)"
  "currentlyAbove (proj (collide env object s)) = currentlyAbove (proj s)"
  "currentDrag (proj (collide env object s)) = currentDrag (proj s)"
  "trace (collide env object s) = trace s @ [Collided object]"
  "wld (collide env object s) = wld s"
  "closestIntersection (collide env object s) = closestIntersection s"
  "damagedThisTick (collide env object s) = damagedThisTick s"
  "threw (collide env object s) = threw s"
  by (simp_all add: collide_def Let_def)

lemma react_constants [simp]:
  "loop_constants (proj (react env old sdi object li cwo s)) = loop_constants (proj s)"
  "currentlyAbove (proj (react env old sdi object li cwo s)) = currentlyAbove (proj s)"
  "currentDrag (proj (react env old sdi object li cwo s)) = currentDrag (proj s)"
  "threw (react env old sdi object li cwo s) = threw s"
  by (simp_all add: react_def Let_def split: option.splits)

lemma react_trace_mono: "set (trace s) \<subseteq> set (trace (react env old sdi object li cwo s))"
  by (auto simp: react_def Let_def split: option.splits)

lemma react_trace:
  assumes "e \<in> set (trace (react env old sdi object li cwo s))"
  shows "e \<in> set (trace s) \<or> (cwo \<and> e = Collided object)
       \<or> (cwo \<and> sdi \<and> object \<notin> damagedLastTick (proj s)
           \<and> e = Damaged object (impact_amount env (proj s) object))"
  using assms by (auto simp: react_def Let_def split: option.splits if_splits)

lemma react_closest:
  "closestIntersection (react env old sdi object li cwo s) = closestIntersection s
   \<or> (li \<noteq> None \<and> ci_intersected (closestIntersection (react env old sdi object li cwo s))
       \<and> ci_object (closestIntersection (react env old sdi object li cwo s)) = Some object)"
  by (auto simp: react_def Let_def split: option.splits)

lemma react_quiet:
  assumes "\<forall>e \<in> set (trace (react env old sdi object li cwo s)). \<not> reaction e"
  shows "proj (react env old sdi object li cwo s) = proj s"
  using assms by (auto simp: react_def Let_def split: option.splits if_splits)

lemma react_idle:
  "react env old sdi object None False s = s"
  by (simp add: react_def)

lemma mark_flyover_simps [simp]:
  "loop_constants (mark_flyover env v w object p) = loop_constants p"
  "position (mark_flyover env v w object p) = position p"
  "velocity (mark_flyover env v w object p) = velocity p"
  "rotation (mark_flyover env v w object p) = rotation p"
  "angularVelocity (mark_flyover env v w object p) = angularVelocity p"
  "radius (mark_flyover env v w object p) = radius p"
  by (simp_all add: mark_flyover_def)

lemma mark_flyover_member [simp]:
  "x \<in> currentlyAbove (mark_flyover env v w object p)
   \<longleftrightarrow> x \<in> currentlyAbove p \<or> (x = object \<and> canFlyOver env v w p object)"
  by (auto simp: mark_flyover_def)

lemma mark_flyover_above:
  "currentlyAbove p \<subseteq> currentlyAbove (mark_flyover env v w object p)"
  "currentlyAbove (mark_flyover env v w object p) \<subseteq> insert object (currentlyAbove p)"
  "canFlyOver env v w p object \<Longrightarrow> object \<in> currentlyAbove (mark_flyover env v w object p)"
  by (auto simp: mark_flyover_def)

text \<open>The seven ways through the loop body.\<close>

lemma scan_object_outcome:
  fixes env old v sdi object s
  defines "s' \<equiv> scan_object env old v sdi object s"
      and "p1 \<equiv> mark_flyover env v (wld s) object (proj s)"
      and "solid \<equiv> category (objects env object) = Obstacle
                    \<or> category (objects env object) = Building"
  shows "s' = s
    \<or> s' = s\<lparr>threw := True\<rparr>
    \<or> (solid \<and> s' = s\<lparr>proj := keep_private p1 (handleStairInteraction env object (wld s) p1),
                        trace := trace s @ [StairInteraction object]\<rparr>)
    \<or> (solid \<and> s' = s\<lparr>proj := p1\<rparr>)
    \<or> (solid \<and> object \<notin> currentlyAbove (proj s)
        \<and> \<not> ignored env sdi (wld s) (proj s) object
        \<and> (\<exists>li. s' = react env old sdi object li True
                     (s\<lparr>proj := p1\<lparr>currentlyAbove := currentlyAbove p1 - {object}\<rparr>\<rparr>)))
    \<or> (solid
        \<and> s' = s\<lparr>proj := (proj s)\<lparr>currentlyAbove := currentlyAbove (proj s) - {object}\<rparr>\<rparr>)
    \<or> (\<not> solid \<and> \<not> ignored env sdi (wld s) (proj s) object
        \<and> (\<exists>li cwo. (li \<noteq> None \<longrightarrow> cwo) \<and> s' = react env old sdi object li cwo s))"
proof (cases "threw s \<or> ignored env sdi (wld s) (proj s) object")
  case True
  then have "s' = s" by (auto simp: s'_def scan_object_def)
  then show ?thesis by simp
next
  case live: False
  show ?thesis
  proof (cases "obj_hitbox (wld s object)")
    case None
    with live have "s' = s\<lparr>threw := True\<rparr>" by (simp add: s'_def scan_object_def)
    then show ?thesis by simp
  next
    case (Some hb)
    define li where "li = intersectsLine env hb old (position (proj s))"
    define cwo where "cwo = (li \<noteq> None \<or> collidesWith env (this_hitbox (proj s)) hb)"
    note unfold = s'_def scan_object_def Let_def li_def cwo_def p1_def
    show ?thesis
    proof (cases solid)
      case False
      then have "s' = react env old sdi object li cwo s"
        using live Some unfolding solid_def by (simp add: unfold)
      moreover have "li \<noteq> None \<longrightarrow> cwo" by (simp add: cwo_def)
      ultimately show ?thesis using False live by blast
    next
      case solid: True
      show ?thesis
      proof (cases cwo)
        case False
        then have "li = None" by (simp add: cwo_def)
        with False have "intersectsLine env hb old (position (proj s)) = None"
          and "\<not> collidesWith env (this_hitbox (proj s)) hb"
          by (simp_all add: cwo_def li_def)
        then have "s' = s\<lparr>proj := (proj s)\<lparr>currentlyAbove :=
            currentlyAbove (proj s) - {object}\<rparr>\<rparr>"
          using live Some solid unfolding solid_def by (simp add: unfold react_idle)
        with solid show ?thesis by simp
      next
        case cwo: True
        show ?thesis
        proof (cases "category (objects env object) = Obstacle \<and> isStair (objects env object)")
          case True
          then have "s' = s\<lparr>proj := keep_private p1
                (handleStairInteraction env object (wld s) p1),
              trace := trace s @ [StairInteraction object]\<rparr>"
            using live Some cwo by (auto simp: unfold)
          with solid show ?thesis by simp
        next
          case nostair: False
          show ?thesis
          proof (cases "canFlyOver env v (wld s) (proj s) object \<or> object \<in> currentlyAbove p1")
            case True
            then have "s' = s\<lparr>proj := p1\<rparr>"
              using live Some cwo nostair solid unfolding solid_def
              by (auto simp: unfold)
            with solid show ?thesis by simp
          next
            case False
            then have "s' = react env old sdi object li True
                (s\<lparr>proj := p1\<lparr>currentlyAbove := currentlyAbove p1 - {object}\<rparr>\<rparr>)"
              using live Some cwo nostair solid unfolding solid_def
              by (auto simp: unfold)
            moreover from False have "object \<notin> currentlyAbove (proj s)"
              by (simp add: p1_def)
            ultimately show ?thesis using solid live by blast
          qed
        qed
      qed
    qed
  qed
qed

lemma marked_fields:
  assumes "marked object p q"
  shows "loop_constants q = loop_constants p"
    and "position q = position p" and "velocity q = velocity p"
    and "rotation q = rotation p" and "angularVelocity q = angularVelocity p"
    and "radius q = radius p" and "layer q = layer p"
    and "x \<noteq> object \<Longrightarrow> x \<in> currentlyAbove q \<longleftrightarrow> x \<in> currentlyAbove p"
    and "currentDrag p = Harsh \<Longrightarrow> currentDrag q = Harsh"
proof -
  from assms have eq: "q\<lparr>currentlyAbove := {}, currentDrag := Normal\<rparr>
      = p\<lparr>currentlyAbove := {}, currentDrag := Normal\<rparr>"
    and above: "currentlyAbove q - {object} = currentlyAbove p - {object}"
    by (simp_all add: marked_def)
  show "loop_constants q = loop_constants p"
    using arg_cong[OF eq, of loop_constants] by (simp add: loop_constants_def)
  show "position q = position p" using arg_cong[OF eq, of position] by simp
  show "velocity q = velocity p" using arg_cong[OF eq, of velocity] by simp
  show "rotation q = rotation p" using arg_cong[OF eq, of rotation] by simp
  show "angularVelocity q = angularVelocity p" using arg_cong[OF eq, of angularVelocity] by simp
  show "radius q = radius p" using arg_cong[OF eq, of radius] by simp
  show "layer q = layer p" using arg_cong[OF eq, of layer] by simp
  show "x \<noteq> object \<Longrightarrow> x \<in> currentlyAbove q \<longleftrightarrow> x \<in> currentlyAbove p"
    using above by blast
  show "currentDrag p = Harsh \<Longrightarrow> currentDrag q = Harsh"
    using assms by (auto simp: marked_def)
qed

lemma marked_intros:
  "marked object p p"
  "marked object p (mark_flyover env v w object p)"
  "marked object p (p\<lparr>currentlyAbove := currentlyAbove p - {object}\<rparr>)"
  "marked object p ((mark_flyover env v w object p)
     \<lparr>currentlyAbove := currentlyAbove (mark_flyover env v w object p) - {object}\<rparr>)"
  by (auto simp: marked_def mark_flyover_def)

lemma scan_object_cases [case_names quiet threw stair react]:
  obtains
    (quiet) q where "marked object (proj s) q"
      and "scan_object env old v sdi object s = s\<lparr>proj := q\<rparr>"
  | (threw) "scan_object env old v sdi object s = s\<lparr>threw := True\<rparr>"
  | (stair) q where "marked object (proj s) q"
      and "scan_object env old v sdi object s
           = s\<lparr>proj := keep_private q (handleStairInteraction env object (wld s) q),
               trace := trace s @ [StairInteraction object]\<rparr>"
  | (react) q li cwo where "marked object (proj s) q"
      and "\<not> ignored env sdi (wld s) (proj s) object"
      and "category (objects env object) = Obstacle \<or> category (objects env object) = Building
           \<Longrightarrow> object \<notin> currentlyAbove (proj s)"
      and "scan_object env old v sdi object s = react env old sdi object li cwo (s\<lparr>proj := q\<rparr>)"
proof -
  let ?s' = "scan_object env old v sdi object s"
  let ?p1 = "mark_flyover env v (wld s) object (proj s)"
  note o = scan_object_outcome[of env old v sdi object s]
  consider "?s' = s" | "?s' = s\<lparr>threw := True\<rparr>"
    | "?s' = s\<lparr>proj := keep_private ?p1 (handleStairInteraction env object (wld s) ?p1),
                        trace := trace s @ [StairInteraction object]\<rparr>"
    | "?s' = s\<lparr>proj := ?p1\<rparr>"
    | li where "category (objects env object) = Obstacle \<or> category (objects env object) = Building"
        "object \<notin> currentlyAbove (proj s)" "\<not> ignored env sdi (wld s) (proj s) object"
        "?s' = react env old sdi object li True
                     (s\<lparr>proj := ?p1\<lparr>currentlyAbove := currentlyAbove ?p1 - {object}\<rparr>\<rparr>)"
    | "?s' = s\<lparr>proj := (proj s)\<lparr>currentlyAbove := currentlyAbove (proj s) - {object}\<rparr>\<rparr>"
    | li cwo where "\<not> (category (objects env object) = Obstacle
          \<or> category (objects env object) = Building)"
        "\<not> ignored env sdi (wld s) (proj s) object"
        "?s' = react env old sdi object li cwo s"
    using o by blast
  then show thesis
  proof cases
    case 1
    then have "?s' = s\<lparr>proj := proj s\<rparr>" by simp
    with marked_intros(1) show ?thesis by (rule quiet)
  next
    case 2
    then show ?thesis by (rule threw)
  next
    case 3
    with marked_intros(2) show ?thesis by (rule stair)
  next
    case 4
    with marked_intros(2) show ?thesis by (rule quiet)
  next
    case 5
    show ?thesis
      by (rule react[OF marked_intros(4) 5(3) _ 5(4)]) (rule 5(2))
  next
    case 6
    with marked_intros(3) show ?thesis by (rule quiet)
  next
    case 7
    from 7(3) have r: "?s' = react env old sdi object li cwo (s\<lparr>proj := proj s\<rparr>)" by simp
    show ?thesis
      by (rule react[OF marked_intros(1) 7(2) _ r]) (use 7(1) in blast)
  qed
qed

lemma scan_object_constants [simp]:
  "loop_constants (proj (scan_object env old v sdi object s)) = loop_constants (proj s)"
  by (cases rule: scan_object_cases[of object s env old v sdi])
     (simp_all add: marked_fields(1))

lemma scan_object_trace_mono:
  "set (trace s) \<subseteq> set (trace (scan_object env old v sdi object s))"
proof (cases rule: scan_object_cases[of object s env old v sdi])
  case (react q li cwo)
  then show ?thesis
    using react_trace_mono[of "s\<lparr>proj := q\<rparr>" env old sdi object li cwo] by simp
qed auto

lemma scan_object_events:
  assumes "e \<in> set (trace (scan_object env old v sdi object s))"
  shows "e \<in> set (trace s) \<or> event_object e = object"
proof (cases rule: scan_object_cases[of object s env old v sdi])
  case (react q li cwo)
  with assms react_trace[of e env old sdi object li cwo "s\<lparr>proj := q\<rparr>"]
  show ?thesis by auto
qed (use assms in auto)

lemma scan_object_damaged:
  assumes "Damaged x a \<in> set (trace (scan_object env old v sdi object s))"
  shows "Damaged x a \<in> set (trace s) \<or> (x = object \<and> x \<notin> damagedLastTick (proj s))"
proof (cases rule: scan_object_cases[of object s env old v sdi])
  case (react q li cwo)
  from react(1) have "damagedLastTick q = damagedLastTick (proj s)"
    using marked_fields(1)[of object "proj s" q] by (simp add: loop_constants_def)
  with assms react(4) react_trace[of "Damaged x a" env old sdi object li cwo "s\<lparr>proj := q\<rparr>"]
  show ?thesis by auto
qed (use assms in auto)

lemma scan_object_owner:
  assumes "\<not> collideWithOwner (proj s)"
      and "category (objects env (owner (proj s))) = Player"
  shows "scan_object env old v sdi (owner (proj s)) s = s"
  using assms by (simp add: scan_object_def ignored_def)

lemma scan_object_closest:
  "closestIntersection (scan_object env old v sdi object s) = closestIntersection s
   \<or> (ci_intersected (closestIntersection (scan_object env old v sdi object s))
       \<and> ci_object (closestIntersection (scan_object env old v sdi object s)) = Some object
       \<and> \<not> ignored env sdi (wld s) (proj s) object
       \<and> (category (objects env object) = Obstacle \<or> category (objects env object) = Building
            \<longrightarrow> object \<notin> currentlyAbove (proj s)))"
proof (cases rule: scan_object_cases[of object s env old v sdi])
  case (react q li cwo)
  with react_closest[of env old sdi object li cwo "s\<lparr>proj := q\<rparr>"]
  show ?thesis by auto
qed simp_all

lemma scan_object_closest_ok:
  assumes "ci_intersected (closestIntersection s) \<longrightarrow> ci_object (closestIntersection s) \<noteq> None"
  shows "ci_intersected (closestIntersection (scan_object env old v sdi object s))
         \<longrightarrow> ci_object (closestIntersection (scan_object env old v sdi object s)) \<noteq> None"
  using assms scan_object_closest[of env old v sdi object s] by auto

lemma scan_object_above:
  assumes "object \<in> currentlyAbove (proj s)"
      and "category (objects env object) = Obstacle \<or> category (objects env object) = Building"
  shows "closestIntersection (scan_object env old v sdi object s) = closestIntersection s"
    and "e \<in> set (trace (scan_object env old v sdi object s))
         \<Longrightarrow> e \<in> set (trace s) \<or> e = StairInteraction object"
proof -
  have "closestIntersection (scan_object env old v sdi object s) = closestIntersection s
      \<and> (e \<in> set (trace (scan_object env old v sdi object s))
         \<longrightarrow> e \<in> set (trace s) \<or> e = StairInteraction object)"
  proof (cases rule: scan_object_cases[of object s env old v sdi])
    case (react q li cwo)
    with assms show ?thesis by simp
  qed auto
  then show "closestIntersection (scan_object env old v sdi object s) = closestIntersection s"
    and "e \<in> set (trace (scan_object env old v sdi object s))
         \<Longrightarrow> e \<in> set (trace s) \<or> e = StairInteraction object"
    by simp_all
qed

lemma scan_object_other_above:
  assumes "x \<noteq> object"
  shows "x \<in> currentlyAbove (proj (scan_object env old v sdi object s))
         \<longleftrightarrow> x \<in> currentlyAbove (proj s)"
  by (cases rule: scan_object_cases[of object s env old v sdi])
     (simp_all add: marked_fields(8)[OF _ assms])

lemma scan_object_quiet:
  assumes "\<forall>e \<in> set (trace (scan_object env old v sdi object s)). \<not> reaction e"
  shows "position (proj (scan_object env old v sdi object s)) = position (proj s)
       \<and> velocity (proj (scan_object env old v sdi object s)) = velocity (proj s)
       \<and> rotation (proj (scan_object env old v sdi object s)) = rotation (proj s)
       \<and> radius (proj (scan_object env old v sdi object s)) = radius (proj s)"
proof (cases rule: scan_object_cases[of object s env old v sdi])
  case (quiet q)
  then show ?thesis by (simp add: marked_fields)
next
  case threw
  then show ?thesis by simp
next
  case (stair q)
  with assms show ?thesis by simp
next
  case (react q li cwo)
  with assms react_quiet[of env old sdi object li cwo "s\<lparr>proj := q\<rparr>"]
  show ?thesis by (simp add: marked_fields)
qed

section \<open>The whole scan and the end of the tick\<close>

lemma scan_loop_constants [simp]:
  "loop_constants (proj (fold (scan_object env old v sdi) xs s)) = loop_constants (proj s)"
  by (rule fold_invariant) simp_all

lemma scan_loop_trace_mono:
  "set (trace s) \<subseteq> set (trace (fold (scan_object env old v sdi) xs s))"
proof (induction xs arbitrary: s)
  case Nil
  show ?case by simp
next
  case (Cons x xs)
  have "set (trace s) \<subseteq> set (trace (scan_object env old v sdi x s))"
    by (rule scan_object_trace_mono)
  also have "\<dots> \<subseteq> set (trace (fold (scan_object env old v sdi) xs (scan_object env old v sdi x s)))"
    by (rule Cons.IH)
  finally show ?case by simp
qed

lemma scan_loop_events:
  assumes "e \<in> set (trace (fold (scan_object env old v sdi) xs s))"
  shows "e \<in> set (trace s) \<or> event_object e \<in> set xs"
  using assms
proof (induction xs arbitrary: s)
  case Nil
  then show ?case by simp
next
  case (Cons x xs)
  from Cons.prems have "e \<in> set (trace (scan_object env old v sdi x s)) \<or> event_object e \<in> set xs"
    using Cons.IH[of "scan_object env old v sdi x s"] by simp
  then show ?case using scan_object_events[of e env old v sdi x s] by auto
qed

lemma scan_loop_damaged:
  assumes "Damaged x a \<in> set (trace (fold (scan_object env old v sdi) xs s))"
  shows "Damaged x a \<in> set (trace s) \<or> x \<notin> damagedLastTick (proj s)"
proof -
  let ?P = "\<lambda>t::scan. loop_constants (proj t) = loop_constants (proj s)
      \<and> (Damaged x a \<in> set (trace t)
           \<longrightarrow> Damaged x a \<in> set (trace s) \<or> x \<notin> damagedLastTick (proj s))"
  have "?P (fold (scan_object env old v sdi) xs s)"
  proof (rule fold_invariant)
    show "?P s" by simp
  next
    fix y and t :: scan
    assume t: "?P t"
    then have d: "damagedLastTick (proj t) = damagedLastTick (proj s)"
      by (simp add: loop_constants_def)
    show "?P (scan_object env old v sdi y t)"
      using t d scan_object_damaged[of x a env old v sdi y t] by auto
  qed
  with assms show ?thesis by simp
qed

lemma finish_trace:
  assumes "e \<in> set (trace (finish env s))"
  shows "e \<in> set (trace s)
       \<or> (ci_intersected (closestIntersection s)
           \<and> ci_object (closestIntersection s) = Some (event_object e)
           \<and> e = Collided (event_object e))"
  using assms by (auto simp: finish_def Let_def split: if_splits option.splits)

lemma finish_trace_mono: "set (trace s) \<subseteq> set (trace (finish env s))"
  by (auto simp: finish_def Let_def split: if_splits option.splits)

lemma finish_fields [simp]:
  "airborne (proj (finish env s)) = airborne (proj s)"
  "defn (proj (finish env s)) = defn (proj s)"
  "owner (proj (finish env s)) = owner (proj s)"
  "health (proj (finish env s)) = health (proj s)"
  "activated (proj (finish env s)) = activated (proj s)"
  "currentlyAbove (proj (finish env s)) = currentlyAbove (proj s)"
  "currentDrag (proj (finish env s)) = currentDrag (proj s)"
  "wld (finish env s) = wld s"
  "threw (finish env s) = threw s"
proof -
  have lc: "\<And>w object p. airborne (handleCollision env w object p) = airborne p
      \<and> defn (handleCollision env w object p) = defn p
      \<and> owner (handleCollision env w object p) = owner p
      \<and> health (handleCollision env w object p) = health p
      \<and> activated (handleCollision env w object p) = activated p"
    using handleCollision_constants(1) by (simp add: loop_constants_def)
  show "airborne (proj (finish env s)) = airborne (proj s)"
    "defn (proj (finish env s)) = defn (proj s)"
    "owner (proj (finish env s)) = owner (proj s)"
    "health (proj (finish env s)) = health (proj s)"
    "activated (proj (finish env s)) = activated (proj s)"
    "currentlyAbove (proj (finish env s)) = currentlyAbove (proj s)"
    "currentDrag (proj (finish env s)) = currentDrag (proj s)"
    "wld (finish env s) = wld s"
    "threw (finish env s) = threw s"
    by (simp_all add: finish_def Let_def lc split: option.splits)
qed

lemma integrate_fields [simp]:
  "loop_constants (integrate env p) = loop_constants p"
  "currentlyAbove (integrate env p) = currentlyAbove p"
  "currentDrag (integrate env p) = currentDrag p"
  "angularVelocity (integrate env p) = angularVelocity p"
  "radius (integrate env p) = radius p"
  "layer (integrate env p) = layer p"
  by (simp_all add: integrate_def Let_def)

lemma classify_fields [simp]:
  "defn (classify env p) = defn p"
  "owner (classify env p) = owner p"
  "health (classify env p) = health p"
  "spawnTime (classify env p) = spawnTime p"
  "collideWithOwner (classify env p) = collideWithOwner p"
  "activated (classify env p) = activated p"
  "damagedLastTick (classify env p) = damagedLastTick p"
  "currentlyAbove (classify env p) = currentlyAbove p"
  "position (classify env p) = position p"
  "velocity (classify env p) = velocity p"
  "rotation (classify env p) = rotation p"
  "radius (classify env p) = radius p"
  "layer (classify env p) = layer p"
  by (simp_all add: classify_def Let_def)

lemma classify_airborne: "airborne (classify env p) \<Longrightarrow> airborne p"
  by (simp add: classify_def Let_def split: if_splits)

lemma loop_constants_fields:
  assumes "loop_constants q = loop_constants p"
  shows "defn q = defn p" "owner q = owner p" "health q = health p"
    "spawnTime q = spawnTime p" "collideWithOwner q = collideWithOwner p"
    "airborne q = airborne p" "activated q = activated p"
    "damagedLastTick q = damagedLastTick p"
  using assms by (simp_all add: loop_constants_def)

section \<open>A tick without a collision\<close>

lemma scan_loop_quiet:
  assumes "\<forall>e \<in> set (trace (fold (scan_object env old v sdi) xs s)). \<not> reaction e"
  shows "position (proj (fold (scan_object env old v sdi) xs s)) = position (proj s)
       \<and> velocity (proj (fold (scan_object env old v sdi) xs s)) = velocity (proj s)
       \<and> rotation (proj (fold (scan_object env old v sdi) xs s)) = rotation (proj s)
       \<and> radius (proj (fold (scan_object env old v sdi) xs s)) = radius (proj s)"
  using assms
proof (induction xs arbitrary: s)
  case Nil
  show ?case by simp
next
  case (Cons x xs)
  let ?t = "scan_object env old v sdi x s"
  have "set (trace ?t) \<subseteq> set (trace (fold (scan_object env old v sdi) xs ?t))"
    by (rule scan_loop_trace_mono)
  with Cons.prems have "\<forall>e \<in> set (trace ?t). \<not> reaction e" by auto
  then have "position (proj ?t) = position (proj s) \<and> velocity (proj ?t) = velocity (proj s)
      \<and> rotation (proj ?t) = rotation (proj s) \<and> radius (proj ?t) = radius (proj s)"
    by (rule scan_object_quiet)
  moreover have "\<forall>e \<in> set (trace (fold (scan_object env old v sdi) xs ?t)). \<not> reaction e"
    using Cons.prems by simp
  ultimately show ?case using Cons.IH[of ?t] by simp
qed

lemma scan_loop_closest_ok:
  assumes "ci_intersected (closestIntersection s) \<longrightarrow> ci_object (closestIntersection s) \<noteq> None"
  shows "ci_intersected (closestIntersection (fold (scan_object env old v sdi) xs s))
         \<longrightarrow> ci_object (closestIntersection (fold (scan_object env old v sdi) xs s)) \<noteq> None"
  by (rule fold_invariant) (simp_all add: assms scan_object_closest_ok)

lemma finish_quiet:
  assumes "\<forall>e \<in> set (trace (finish env s)). \<not> reaction e"
      and "ci_intersected (closestIntersection s) \<longrightarrow> ci_object (closestIntersection s) \<noteq> None"
  shows "velocity (proj (finish env s)) = velocity (proj s)"
    and "rotation (proj (finish env s)) = rotation (proj s)"
    and "position (proj (finish env s))
         = (if threw s then position (proj s)
            else Vec_create
              (Numeric_clamp (vec_x (position (proj s))) (radius (proj s))
                 (jsub (map_width env) (radius (proj s))))
              (Numeric_clamp (vec_y (position (proj s))) (radius (proj s))
                 (jsub (map_height env) (radius (proj s)))))"
proof -
  have "\<not> ci_intersected (closestIntersection s) \<or> threw s"
  proof (rule ccontr)
    assume "\<not> (\<not> ci_intersected (closestIntersection s) \<or> threw s)"
    then have i: "ci_intersected (closestIntersection s)" and t: "\<not> threw s" by simp_all
    with assms(2) obtain object where "ci_object (closestIntersection s) = Some object" by auto
    with i t have "Collided object \<in> set (trace (finish env s))"
      by (simp add: finish_def Let_def)
    with assms(1) show False by fastforce
  qed
  then show "velocity (proj (finish env s)) = velocity (proj s)"
    and "rotation (proj (finish env s)) = rotation (proj s)"
    and "position (proj (finish env s))
         = (if threw s then position (proj s)
            else Vec_create
              (Numeric_clamp (vec_x (position (proj s))) (radius (proj s))
                 (jsub (map_width env) (radius (proj s))))
              (Numeric_clamp (vec_y (position (proj s))) (radius (proj s))
                 (jsub (map_height env) (radius (proj s)))))"
    by (auto simp: finish_def Let_def Vec_create_def)
qed

text \<open>What a tick without a collision leaves: the integration, and the clamp.\<close>

lemma update_quiet:
  assumes "\<not> c4 (defn p)"
      and "\<forall>e \<in> set (trace (update env w p)). \<not> reaction e"
  shows "velocity (proj (update env w p)) = velocity (integrate env p)"
    and "rotation (proj (update env w p)) = rotation (integrate env p)"
    and "position (proj (update env w p))
         = (if threw (update env w p) then position (integrate env p)
            else Vec_create
              (Numeric_clamp (vec_x (position (integrate env p))) (radius p)
                 (jsub (map_width env) (radius p)))
              (Numeric_clamp (vec_y (position (integrate env p))) (radius p)
                 (jsub (map_height env) (radius p))))"
proof -
  let ?all = "scan_candidates env w p (candidates env p)"
  have u: "update env w p = finish env ?all" using assms(1) by (simp add: update_def)
  have ok: "ci_intersected (closestIntersection ?all)
      \<longrightarrow> ci_object (closestIntersection ?all) \<noteq> None"
    unfolding scan_candidates_def Let_def
    by (rule scan_loop_closest_ok) (simp add: scan_start_def)
  have q: "\<forall>e \<in> set (trace (finish env ?all)). \<not> reaction e" using assms(2) u by simp
  then have "\<forall>e \<in> set (trace ?all). \<not> reaction e"
    using finish_trace_mono[of ?all env] by blast
  then have same: "position (proj ?all) = position (integrate env p)
      \<and> velocity (proj ?all) = velocity (integrate env p)
      \<and> rotation (proj ?all) = rotation (integrate env p)
      \<and> radius (proj ?all) = radius p"
    unfolding scan_candidates_def Let_def
    using scan_loop_quiet[of env _ _ _ "candidates env p"
        "scan_start w (classify env (integrate env p))"]
    by (simp add: scan_start_def)
  show "velocity (proj (update env w p)) = velocity (integrate env p)"
    using finish_quiet(1)[OF q ok] same u by simp
  show "rotation (proj (update env w p)) = rotation (integrate env p)"
    using finish_quiet(2)[OF q ok] same u by simp
  show "position (proj (update env w p))
         = (if threw (update env w p) then position (integrate env p)
            else Vec_create
              (Numeric_clamp (vec_x (position (integrate env p))) (radius p)
                 (jsub (map_width env) (radius p)))
              (Numeric_clamp (vec_y (position (integrate env p))) (radius p)
                 (jsub (map_height env) (radius p))))"
    using finish_quiet(3)[OF q ok] same u by simp
qed

lemma drag_positive: "\<exists>c. drag_value d = Fin c \<and> 0 < c"
proof (cases d)
  case Normal
  then have "drag_value d = Fin 0.001 \<and> (0::real) < 0.001" by simp
  then show ?thesis by blast
next
  case Harsh
  then have "drag_value d = Fin 0.005 \<and> (0::real) < 0.005" by simp
  then show ?thesis by blast
qed

section \<open>The collision response at rest\<close>

text \<open>
  C10. The reflection divides by the length of the velocity and has no guard: whenever
  the collision response of a projectile at rest (velocity zero) reaches a penetration
  resolution, \<open>1 / len\<close> is a division by zero (it is \<open>Infinity\<close>) and both
  components of the resulting velocity are \<open>NaN\<close>, not finite numbers.
\<close>

theorem rest_velocity_not_finite:
  assumes "velocity p = Vec_create (Fin 0) (Fin 0)"
      and "\<not> bails env w object p"
      and "obj_hitbox (w object) = Some hb"
      and "collidesWith env hb (this_hitbox p)"
      and "equalLayer env (layer p) (obj_layer (w object))"
      and "snd (resolve env hb p) = Some c"
  shows "jdiv (Fin 1) (Vec_length (velocity p)) = PInf
       \<and> velocity (handleCollision env w object p) = Vec_create NaN NaN
       \<and> \<not> finite_num (vec_x (velocity (handleCollision env w object p)))
       \<and> \<not> finite_num (vec_y (velocity (handleCollision env w object p)))"
proof -
  have "velocity (handleCollision env w object p) = Vec_create NaN NaN"
    using handleCollision_reflects[OF assms(2-6)] assms(1) by (simp add: reflect_at_rest)
  moreover have "jdiv (Fin 1) (Vec_length (velocity p)) = PInf"
    using assms(1)
    by (simp add: Vec_length_def Vec_squaredLength_def Vec_create_def inf_of_sign_def)
  ultimately show ?thesis by (simp add: Vec_create_def)
qed

theorem rest_velocity_not_finite_witness:
  "velocity (sample_projectile (Vec_create (Fin 0) (Fin 0))) = Vec_create (Fin 0) (Fin 0)
   \<and> velocity (handleCollision (sample_env (Fin 25) (Fin 0) [1] wall_statics) wall_world 1
        (sample_projectile (Vec_create (Fin 0) (Fin 0)))) = Vec_create NaN NaN"
proof -
  let ?env = "sample_env (Fin 25) (Fin 0) [1] wall_statics"
  let ?p = "sample_projectile (Vec_create (Fin 0) (Fin 0))"
  let ?hb = "Circle (Vec_create (Fin 103) (Fin 100)) (Fin 3)"
  have 1: "velocity ?p = Vec_create (Fin 0) (Fin 0)" by (simp add: sample_defs)
  have 2: "\<not> bails ?env wall_world 1 ?p" by (simp add: bails_def sample_defs)
  have 3: "obj_hitbox (wall_world 1) = Some ?hb" by (simp add: sample_defs)
  have 4: "collidesWith ?env ?hb (this_hitbox ?p)"
    by (simp add: sample_defs this_hitbox_def vec_defs)
  have 5: "equalLayer ?env (layer ?p) (obj_layer (wall_world 1))" by (simp add: sample_defs)
  have 6: "snd (resolve ?env ?hb ?p)
           = Some \<lparr>dir = Vec_create (Fin (- 1)) (Fin 0), pen = Fin 1\<rparr>"
    by (simp add: sample_defs push_out_def vec_defs)
  show ?thesis
    using rest_velocity_not_finite[OF 1 2 3 4 5 6] 1 by simp
qed

section \<open>The reflection law\<close>

lemma reflection_law_at_rest:
  assumes "finite_vec n"
  shows "reflection_law (Vec_create (Fin 0) (Fin 0)) n = Vec_create (Fin 0) (Fin 0)"
proof -
  from assms obtain c d where "n = Vec_create (Fin c) (Fin d)" by (rule finite_vec_cases)
  then show ?thesis by (simp add: reflection_law_def vec_defs)
qed

text \<open>Off rest, the code computes the law of the specification, in the arithmetic of
  this model (finite values are exact reals: up to rounding).\<close>

lemma handleCollision_law_moving:
  assumes "\<not> bails env w object p"
      and "obj_hitbox (w object) = Some hb"
      and "collidesWith env hb (this_hitbox p)"
      and "equalLayer env (layer p) (obj_layer (w object))"
      and "snd (resolve env hb p) = Some c"
      and "finite_vec (velocity p)" and "finite_vec (dir c)"
      and "velocity p \<noteq> Vec_create (Fin 0) (Fin 0)"
  shows "velocity (handleCollision env w object p) = reflection_law (velocity p) (dir c)"
proof -
  from assms(6) obtain a b where v: "velocity p = Vec_create (Fin a) (Fin b)"
    by (rule finite_vec_cases)
  from assms(7) obtain c' d' where n: "dir c = Vec_create (Fin c') (Fin d')"
    by (rule finite_vec_cases)
  from v assms(8) have "a \<noteq> 0 \<or> b \<noteq> 0" by (auto simp: Vec_create_def)
  then show ?thesis
    using handleCollision_reflects[OF assms(1-5)] v n by (simp add: reflect_moving)
qed

text \<open>
  C1. The reflection law \<open>v' = (v - 2(v\<cdot>n)n) * 0.4\<close> is what the collision response
  computes for a moving projectile (\<open>handleCollision_law_moving\<close>), not for one at
  rest: there the law gives the zero vector, and the code, dividing by the length of
  the velocity, gives a velocity that is not the law's.
\<close>

theorem reflection_law_fails_at_rest:
  assumes "velocity p = Vec_create (Fin 0) (Fin 0)"
      and "\<not> bails env w object p"
      and "obj_hitbox (w object) = Some hb"
      and "collidesWith env hb (this_hitbox p)"
      and "equalLayer env (layer p) (obj_layer (w object))"
      and "snd (resolve env hb p) = Some c"
      and "finite_vec (dir c)"
  shows "reflection_law (velocity p) (dir c) = Vec_create (Fin 0) (Fin 0)
       \<and> velocity (handleCollision env w object p) \<noteq> reflection_law (velocity p) (dir c)"
proof -
  have law: "reflection_law (velocity p) (dir c) = Vec_create (Fin 0) (Fin 0)"
    using assms(1,7) by (simp add: reflection_law_at_rest)
  have "velocity (handleCollision env w object p) = Vec_create NaN NaN"
    using handleCollision_reflects[OF assms(2-6)] assms(1) by (simp add: reflect_at_rest)
  with law show ?thesis by (simp add: Vec_create_def)
qed

lemma wall_resolution:
  "snd (resolve (sample_env d t cs wall_statics)
          (Circle (Vec_create (Fin 103) (Fin 100)) (Fin 3)) (sample_projectile v))
   = Some \<lparr>dir = Vec_create (Fin (- 1)) (Fin 0), pen = Fin 1\<rparr>"
  by (simp add: sample_defs push_out_def vec_defs)

theorem reflection_law_fails_at_rest_witness:
  "reflection_law (velocity (sample_projectile (Vec_create (Fin 0) (Fin 0))))
     (Vec_create (Fin (- 1)) (Fin 0)) = Vec_create (Fin 0) (Fin 0)
   \<and> velocity (handleCollision (sample_env (Fin 25) (Fin 0) [1] wall_statics) wall_world 1
        (sample_projectile (Vec_create (Fin 0) (Fin 0))))
     \<noteq> reflection_law (velocity (sample_projectile (Vec_create (Fin 0) (Fin 0))))
         (Vec_create (Fin (- 1)) (Fin 0))"
proof -
  let ?env = "sample_env (Fin 25) (Fin 0) [1] wall_statics"
  let ?p = "sample_projectile (Vec_create (Fin 0) (Fin 0))"
  let ?hb = "Circle (Vec_create (Fin 103) (Fin 100)) (Fin 3)"
  let ?c = "\<lparr>dir = Vec_create (Fin (- 1)) (Fin 0), pen = Fin 1\<rparr>"
  have 1: "velocity ?p = Vec_create (Fin 0) (Fin 0)" by (simp add: sample_defs)
  have 2: "\<not> bails ?env wall_world 1 ?p" by (simp add: bails_def sample_defs)
  have 3: "obj_hitbox (wall_world 1) = Some ?hb" by (simp add: sample_defs)
  have 4: "collidesWith ?env ?hb (this_hitbox ?p)"
    by (simp add: sample_defs this_hitbox_def vec_defs)
  have 5: "equalLayer ?env (layer ?p) (obj_layer (wall_world 1))" by (simp add: sample_defs)
  have 7: "finite_vec (dir ?c)" by (simp add: finite_vec_def Vec_create_def)
  have d: "dir ?c = Vec_create (Fin (- 1)) (Fin 0)" by simp
  show ?thesis
    using reflection_law_fails_at_rest[OF 1 2 3 4 5 wall_resolution 7] unfolding d .
qed

text \<open>The state is one the constructor produces: a projectile created on the wall.\<close>

lemma spawn_on_wall_velocity:
  "velocity (new_projectile (sample_env (Fin 25) (Fin 0) [1] wall_statics) wall_world
      (Vec_create (Fin 100) (Fin 100)) 0 sample_definition 2 None) = Vec_create NaN NaN"
  by (simp add: new_projectile_def set_order_def handleCollision_def bails_def this_hitbox_def
      sample_defs push_out_def reflect_def inf_of_sign_def vec_defs Let_def)

section \<open>Groups of shapes\<close>

lemma resolve_group_append:
  "resolve_group env (xs @ ys) p c =
     (case resolve_group env xs p c of (p1, c1) \<Rightarrow> resolve_group env ys p1 c1)"
proof (induction xs arbitrary: p c)
  case Nil
  show ?case by simp
next
  case (Cons h xs)
  show ?case
  proof (cases "collidesWith env h (this_hitbox p)")
    case True
    obtain p' c' where r: "resolve env h p = (p', c')" by (cases "resolve env h p")
    with True Cons.IH[of p' c'] show ?thesis by simp
  next
    case False
    with Cons.IH[of p c] show ?thesis by simp
  qed
qed

lemma resolve_group_untouched:
  assumes "\<forall>h \<in> set ys. \<not> collidesWith env h (this_hitbox p)"
  shows "resolve_group env ys p c = (p, c)"
  using assms by (induction ys) simp_all

text \<open>
  C5, amended. The members of a group are tested in order, each against the projectile
  where the resolutions of the members before it have left it. The resolution that the
  group keeps, and hands to the reflection, is the result of the last member that
  collides with the projectile when its turn comes; the group then translates the
  projectile by that resolution once more.
\<close>

theorem group_keeps_last_colliding_member:
  assumes "resolve_group env xs p None = (p1, c1)"
      and "collidesWith env h (this_hitbox p1)"
      and "resolve env h p1 = (p2, c2)"
      and "\<forall>y \<in> set ys. \<not> collidesWith env y (this_hitbox p2)"
  shows "resolve env (Group (xs @ h # ys)) p = push_out p2 c2"
proof -
  have "resolve_group env (h # ys) p1 c1 = resolve_group env ys p2 c2"
    using assms(2,3) by simp
  also have "\<dots> = (p2, c2)"
    using assms(4) by (rule resolve_group_untouched)
  finally have "resolve_group env (xs @ h # ys) p None = (p2, c2)"
    using assms(1) by (simp add: resolve_group_append)
  then show ?thesis by simp
qed

lemmas shape_defs = circle_east_def circle_west_def circle_far_def

lemma east_then_west:
  "resolve_group (sample_env d t cs st) [circle_east] (sample_projectile v) None
   = ((sample_projectile v)\<lparr>position := Vec_create (Fin 99) (Fin 100)\<rparr>,
      Some \<lparr>dir = Vec_create (Fin (- 1)) (Fin 0), pen = Fin 1\<rparr>)"
  by (simp add: shape_defs sample_defs this_hitbox_def push_out_def vec_defs)

lemma west_after_east:
  "resolve (sample_env d t cs st) circle_west
     ((sample_projectile v)\<lparr>position := Vec_create (Fin 99) (Fin 100)\<rparr>)
   = ((sample_projectile v)\<lparr>position := Vec_create (Fin 100) (Fin 100)\<rparr>,
      Some \<lparr>dir = Vec_create (Fin 1) (Fin 0), pen = Fin 1\<rparr>)"
  by (simp add: shape_defs sample_defs this_hitbox_def push_out_def vec_defs)

theorem group_keeps_last_colliding_member_witness:
  "resolve (sample_env (Fin 25) (Fin 0) [1] wall_statics)
     (Group ([circle_east] @ circle_west # [circle_far]))
     (sample_projectile (Vec_create (Fin 0) (Fin 0)))
   = ((sample_projectile (Vec_create (Fin 0) (Fin 0)))\<lparr>position := Vec_create (Fin 101) (Fin 100)\<rparr>,
      Some \<lparr>dir = Vec_create (Fin 1) (Fin 0), pen = Fin 1\<rparr>)"
proof -
  let ?env = "sample_env (Fin 25) (Fin 0) [1] wall_statics"
  let ?p = "sample_projectile (Vec_create (Fin 0) (Fin 0))"
  let ?p1 = "?p\<lparr>position := Vec_create (Fin 99) (Fin 100)\<rparr>"
  let ?p2 = "?p\<lparr>position := Vec_create (Fin 100) (Fin 100)\<rparr>"
  let ?c2 = "Some \<lparr>dir = Vec_create (Fin 1) (Fin 0), pen = Fin 1\<rparr>"
  have 2: "collidesWith ?env circle_west (this_hitbox ?p1)"
    by (simp add: shape_defs sample_defs this_hitbox_def vec_defs)
  have 4: "\<forall>y \<in> set [circle_far]. \<not> collidesWith ?env y (this_hitbox ?p2)"
    by (simp add: shape_defs sample_defs this_hitbox_def vec_defs)
  have "push_out ?p2 ?c2 = (?p\<lparr>position := Vec_create (Fin 101) (Fin 100)\<rparr>, ?c2)"
    by (simp add: sample_defs push_out_def vec_defs)
  then show ?thesis
    using group_keeps_last_colliding_member[OF east_then_west 2 west_after_east 4] by simp
qed

text \<open>
  C5 as stated fails: a member before the last one contributes. With the eastern circle
  in the group the western circle is hit and its resolution is kept; the western circle
  alone is not hit at all.
\<close>

theorem group_earlier_member_contributes:
  "resolve (sample_env (Fin 25) (Fin 0) [1] wall_statics) (Group [circle_east, circle_west])
     (sample_projectile (Vec_create (Fin 0) (Fin 0)))
   = ((sample_projectile (Vec_create (Fin 0) (Fin 0)))\<lparr>position := Vec_create (Fin 101) (Fin 100)\<rparr>,
      Some \<lparr>dir = Vec_create (Fin 1) (Fin 0), pen = Fin 1\<rparr>)
   \<and> resolve (sample_env (Fin 25) (Fin 0) [1] wall_statics) (Group [circle_west])
     (sample_projectile (Vec_create (Fin 0) (Fin 0)))
   = (sample_projectile (Vec_create (Fin 0) (Fin 0)), None)"
  by (simp add: shape_defs sample_defs this_hitbox_def push_out_def vec_defs)

section \<open>Damage and the set of last tick\<close>

text \<open>
  C4. An object that is in \<open>damagedLastTick\<close> when a tick starts receives no impact
  damage during that tick: the tick makes no call of \<open>object.damage\<close> on it, whatever
  the geometry.
\<close>

theorem no_damage_to_damaged_last_tick:
  assumes "object \<in> damagedLastTick p"
  shows "Damaged object amount \<notin> set (trace (update env w p))"
proof (cases "c4 (defn p)")
  case True
  then show ?thesis by (simp add: update_def scan_start_def)
next
  case False
  have last: "damagedLastTick (proj (scan_start w (classify env (integrate env p))))
      = damagedLastTick p"
    using loop_constants_fields(8)[OF integrate_fields(1), of env p]
    by (simp add: scan_start_def)
  have "Damaged object amount \<notin> set (trace (finish env (scan_candidates env w p xs)))" for xs
  proof
    assume "Damaged object amount \<in> set (trace (finish env (scan_candidates env w p xs)))"
    then have "Damaged object amount \<in> set (trace (scan_candidates env w p xs))"
      using finish_trace by fastforce
    then have "Damaged object amount
          \<in> set (trace (scan_start w (classify env (integrate env p))))
        \<or> object \<notin> damagedLastTick (proj (scan_start w (classify env (integrate env p))))"
      unfolding scan_candidates_def Let_def by (rule scan_loop_damaged)
    with assms last show False by (simp add: scan_start_def)
  qed
  with False show ?thesis by (simp add: update_def)
qed

text \<open>The same tick damages the wall when it was not damaged the tick before.\<close>

lemma flight_into_wall:
  "trace (update (sample_env (Fin 25) (Fin 100) [1] wall_statics) wall_world sample_flying)
   = [Damaged 1 (Fin 20), Collided 1]"
  by (simp add: tick_defs sample_defs vec_ops)

theorem no_damage_to_damaged_last_tick_witness:
  "1 \<in> damagedLastTick (sample_flying\<lparr>damagedLastTick := {1}\<rparr>)
   \<and> Damaged 1 (Fin 20) \<notin> set (trace (update (sample_env (Fin 25) (Fin 100) [1] wall_statics)
         wall_world (sample_flying\<lparr>damagedLastTick := {1}\<rparr>)))
   \<and> trace (update (sample_env (Fin 25) (Fin 100) [1] wall_statics) wall_world
         (sample_flying\<lparr>damagedLastTick := {1}\<rparr>)) = [Collided 1]"
proof -
  have m: "1 \<in> damagedLastTick (sample_flying\<lparr>damagedLastTick := {1}\<rparr>)" by simp
  have "trace (update (sample_env (Fin 25) (Fin 100) [1] wall_statics) wall_world
         (sample_flying\<lparr>damagedLastTick := {1}\<rparr>)) = [Collided 1]"
    by (simp add: tick_defs sample_defs vec_ops)
  with m no_damage_to_damaged_last_tick[OF m] show ?thesis by blast
qed

section \<open>The thrower\<close>

lemma scan_loop_owner:
  fixes s :: scan
  assumes "\<not> collideWithOwner (proj s)"
      and "category (objects env (owner (proj s))) = Player"
      and "\<forall>e \<in> set (trace s). event_object e \<noteq> owner (proj s)"
      and "ci_object (closestIntersection s) \<noteq> Some (owner (proj s))"
  shows "(\<forall>e \<in> set (trace (fold (scan_object env old v sdi) xs s)).
            event_object e \<noteq> owner (proj s))
       \<and> ci_object (closestIntersection (fold (scan_object env old v sdi) xs s))
           \<noteq> Some (owner (proj s))"
proof -
  let ?own = "owner (proj s)"
  let ?P = "\<lambda>t::scan. loop_constants (proj t) = loop_constants (proj s)
      \<and> (\<forall>e \<in> set (trace t). event_object e \<noteq> ?own)
      \<and> ci_object (closestIntersection t) \<noteq> Some ?own"
  have "?P (fold (scan_object env old v sdi) xs s)"
  proof (rule fold_invariant)
    show "?P s" using assms by simp
  next
    fix x and t :: scan
    assume t: "?P t"
    then have own: "owner (proj t) = ?own" and flag: "\<not> collideWithOwner (proj t)"
      using assms(1) by (simp_all add: loop_constants_def)
    show "?P (scan_object env old v sdi x t)"
    proof (cases "x = ?own")
      case True
      then have "scan_object env old v sdi x t = t"
        using scan_object_owner[of t env old v sdi] own flag assms(2) by simp
      with t show ?thesis by simp
    next
      case False
      have "\<forall>e \<in> set (trace (scan_object env old v sdi x t)). event_object e \<noteq> ?own"
        using t False scan_object_events[of _ env old v sdi x t] by blast
      moreover have "ci_object (closestIntersection (scan_object env old v sdi x t)) \<noteq> Some ?own"
        using t False scan_object_closest[of env old v sdi x t] by auto
      ultimately show ?thesis using t by simp
    qed
  qed
  then show ?thesis by simp
qed

lemma finish_flag:
  "collideWithOwner (proj (finish env s))
   = (collideWithOwner (proj s)
      \<or> (\<not> threw s \<and> jge (jsub (now env) (spawnTime (proj s))) (Fin 250)))"
proof -
  have lc: "\<And>w object p. spawnTime (handleCollision env w object p) = spawnTime p
      \<and> collideWithOwner (handleCollision env w object p) = collideWithOwner p"
    using handleCollision_constants(1) by (simp add: loop_constants_def)
  show ?thesis by (simp add: finish_def Let_def lc split: option.splits)
qed

lemma scan_candidates_fields [simp]:
  "defn (proj (scan_candidates env w p xs)) = defn p"
  "owner (proj (scan_candidates env w p xs)) = owner p"
  "health (proj (scan_candidates env w p xs)) = health p"
  "spawnTime (proj (scan_candidates env w p xs)) = spawnTime p"
  "collideWithOwner (proj (scan_candidates env w p xs)) = collideWithOwner p"
  "activated (proj (scan_candidates env w p xs)) = activated p"
  "damagedLastTick (proj (scan_candidates env w p xs)) = damagedLastTick p"
  "airborne (proj (scan_candidates env w p xs)) = airborne (classify env (integrate env p))"
proof -
  have "loop_constants (proj (scan_candidates env w p xs))
      = loop_constants (classify env (integrate env p))"
    by (simp add: scan_candidates_def Let_def scan_start_def)
  then show "defn (proj (scan_candidates env w p xs)) = defn p"
    "owner (proj (scan_candidates env w p xs)) = owner p"
    "health (proj (scan_candidates env w p xs)) = health p"
    "spawnTime (proj (scan_candidates env w p xs)) = spawnTime p"
    "collideWithOwner (proj (scan_candidates env w p xs)) = collideWithOwner p"
    "activated (proj (scan_candidates env w p xs)) = activated p"
    "damagedLastTick (proj (scan_candidates env w p xs)) = damagedLastTick p"
    "airborne (proj (scan_candidates env w p xs)) = airborne (classify env (integrate env p))"
    using loop_constants_fields[OF integrate_fields(1), of env p]
    by (simp_all add: loop_constants_def)
qed

lemma update_untouched_owner:
  assumes "category (objects env (owner p)) = Player" and "\<not> collideWithOwner p"
  shows "\<forall>e \<in> set (trace (update env w p)). event_object e \<noteq> owner p"
proof (cases "c4 (defn p)")
  case True
  then show ?thesis by (simp add: update_def scan_start_def)
next
  case False
  let ?s0 = "scan_start w (classify env (integrate env p))"
  let ?t = "scan_candidates env w p (candidates env p)"
  have own: "owner (proj ?s0) = owner p"
    and flag: "collideWithOwner (proj ?s0) = collideWithOwner p"
    using loop_constants_fields[OF integrate_fields(1), of env p]
    by (simp_all add: scan_start_def)
  have "(\<forall>e \<in> set (trace ?t). event_object e \<noteq> owner (proj ?s0))
      \<and> ci_object (closestIntersection ?t) \<noteq> Some (owner (proj ?s0))"
    unfolding scan_candidates_def Let_def
    by (rule scan_loop_owner) (use assms own flag in \<open>simp_all add: scan_start_def\<close>)
  then have t: "\<forall>e \<in> set (trace ?t). event_object e \<noteq> owner p"
    and ci: "ci_object (closestIntersection ?t) \<noteq> Some (owner p)"
    using own by simp_all
  show ?thesis
  proof
    fix e
    assume "e \<in> set (trace (update env w p))"
    then have "e \<in> set (trace (finish env ?t))" using False by (simp add: update_def)
    then show "event_object e \<noteq> owner p"
      using finish_trace[of e env ?t] t ci by auto
  qed
qed

lemma update_flag:
  "collideWithOwner (proj (update env w p))
   = (collideWithOwner p
      \<or> (\<not> c4 (defn p) \<and> \<not> threw (update env w p)
          \<and> jge (jsub (now env) (spawnTime p)) (Fin 250)))"
proof (cases "c4 (defn p)")
  case True
  then show ?thesis by (simp add: update_def scan_start_def)
next
  case False
  then show ?thesis by (simp add: update_def finish_flag)
qed

lemma finish_spawnTime [simp]: "spawnTime (proj (finish env s)) = spawnTime (proj s)"
proof -
  have lc: "\<And>w object p. spawnTime (handleCollision env w object p) = spawnTime p"
    using handleCollision_constants(1) by (simp add: loop_constants_def)
  show ?thesis by (simp add: finish_def Let_def lc split: option.splits)
qed

lemma update_owner_spawnTime [simp]:
  "owner (proj (update env w p)) = owner p"
  "spawnTime (proj (update env w p)) = spawnTime p"
  by (simp_all add: update_def scan_start_def)

text \<open>Ticks before the threshold leave the flag unset; no tick unsets it.\<close>

lemma after_ticks_fields [simp]:
  "owner (after_ticks ts p) = owner p"
  "spawnTime (after_ticks ts p) = spawnTime p"
  by (induction ts arbitrary: p) simp_all

lemma after_ticks_unset:
  assumes "\<not> collideWithOwner p"
      and "\<forall>t \<in> set ts. \<not> jge (jsub (now (fst t)) (spawnTime p)) (Fin 250)"
  shows "\<not> collideWithOwner (after_ticks ts p)"
  using assms
proof (induction ts arbitrary: p)
  case Nil
  then show ?case by simp
next
  case (Cons t ts)
  let ?q = "proj (update (fst t) (snd t) p)"
  have "\<not> collideWithOwner ?q"
    using Cons.prems by (simp add: update_flag)
  moreover have "\<forall>u \<in> set ts. \<not> jge (jsub (now (fst u)) (spawnTime ?q)) (Fin 250)"
    using Cons.prems(2) by simp
  ultimately have "\<not> collideWithOwner (after_ticks ts ?q)" by (rule Cons.IH)
  then show ?case by simp
qed

lemma after_ticks_set:
  assumes "collideWithOwner p"
  shows "collideWithOwner (after_ticks ts p)"
  using assms
proof (induction ts arbitrary: p)
  case Nil
  then show ?case by simp
next
  case (Cons t ts)
  have "collideWithOwner (proj (update (fst t) (snd t) p))"
    using Cons.prems by (simp add: update_flag)
  then have "collideWithOwner (after_ticks ts (proj (update (fst t) (snd t) p)))"
    by (rule Cons.IH)
  then show ?case by simp
qed

text \<open>The constructor leaves the flag unset and takes the clock as the spawn time.\<close>

lemma fold_handleCollision_constants:
  "loop_constants (fold (handleCollision env w) xs p) = loop_constants p"
  by (rule fold_invariant[where P = "\<lambda>q. loop_constants q = loop_constants p"]) simp_all

lemma new_projectile_flag:
  "\<not> collideWithOwner (new_projectile env w pos lay d own rad)"
  "spawnTime (new_projectile env w pos lay d own rad) = now env"
  "owner (new_projectile env w pos lay d own rad) = own"
proof -
  let ?p0 = "\<lparr>defn = d, owner = own, health = None, position = pos,
      radius = (case rad of None \<Rightarrow> Fin 1 | Some r \<Rightarrow> r),
      rotation = Fin 0, layer = lay, dead = False,
      velocity = Vec_create (Fin 0) (Fin 0), angularVelocity = Fin 0.0035,
      spawnTime = now env, collideWithOwner = False, airborne = True,
      activated = False, currentlyAbove = {}, currentDrag = Normal,
      damagedLastTick = {}\<rparr>"
  let ?p1 = "fold (handleCollision env w)
      (set_order (intersectsHitbox env (this_hitbox ?p0) None)) ?p0"
  have "loop_constants ?p1 = loop_constants ?p0" by (rule fold_handleCollision_constants)
  then have "\<not> collideWithOwner ?p1 \<and> spawnTime ?p1 = now env \<and> owner ?p1 = own"
    by (simp add: loop_constants_def)
  then show "\<not> collideWithOwner (new_projectile env w pos lay d own rad)"
    "spawnTime (new_projectile env w pos lay d own rad) = now env"
    "owner (new_projectile env w pos lay d own rad) = own"
    by (simp_all add: new_projectile_def Let_def split: option.splits)
qed

text \<open>
  C3, amended. The constructor leaves \<open>collideWithOwner\<close> unset and records the clock as
  the spawn time. A tick that starts with the flag unset makes no call of \<open>damage\<close> or
  of the collision response on the thrower (a player). The flag is set only at the end
  of a tick (of a projectile that is not a planted device) run at or after 250 ms from
  the spawn, and never unset. So after any ticks run before the threshold the flag is
  still unset, and the next tick, whenever it runs, spares the thrower: the thrower is
  spared in every tick run while \<open>now - spawnTime < 250\<close> and still in the first tick
  run at or after the threshold; from the tick after that one the flag is set, for good.
\<close>

theorem owner_grace:
  assumes "category (objects env (owner p)) = Player"
  shows "(\<not> collideWithOwner p
          \<longrightarrow> (\<forall>e \<in> set (trace (update env w p)). event_object e \<noteq> owner p))
       \<and> collideWithOwner (proj (update env w p))
         = (collideWithOwner p
            \<or> (\<not> c4 (defn p) \<and> \<not> threw (update env w p)
                \<and> jge (jsub (now env) (spawnTime p)) (Fin 250)))
       \<and> \<not> collideWithOwner (new_projectile env0 w0 pos lay d own rad)
       \<and> spawnTime (new_projectile env0 w0 pos lay d own rad) = now env0
       \<and> owner (new_projectile env0 w0 pos lay d own rad) = own
       \<and> (\<not> collideWithOwner p
           \<and> (\<forall>t \<in> set ts. \<not> jge (jsub (now (fst t)) (spawnTime p)) (Fin 250))
          \<longrightarrow> \<not> collideWithOwner (after_ticks ts p)
              \<and> (\<forall>e \<in> set (trace (update env w (after_ticks ts p))).
                    event_object e \<noteq> owner p))
       \<and> (collideWithOwner p \<longrightarrow> collideWithOwner (after_ticks ts p))"
proof -
  have later: "\<not> collideWithOwner (after_ticks ts p)
      \<and> (\<forall>e \<in> set (trace (update env w (after_ticks ts p))). event_object e \<noteq> owner p)"
    if "\<not> collideWithOwner p"
      and "\<forall>t \<in> set ts. \<not> jge (jsub (now (fst t)) (spawnTime p)) (Fin 250)"
  proof -
    have unset: "\<not> collideWithOwner (after_ticks ts p)" using that by (rule after_ticks_unset)
    have "category (objects env (owner (after_ticks ts p))) = Player" using assms by simp
    then have "\<forall>e \<in> set (trace (update env w (after_ticks ts p))).
        event_object e \<noteq> owner (after_ticks ts p)"
      using unset by (rule update_untouched_owner)
    with unset show ?thesis by simp
  qed
  show ?thesis
    using update_untouched_owner[OF assms, of w] update_flag[of env w p]
      new_projectile_flag[of env0 w0 pos lay d own rad] later after_ticks_set[of p ts]
    by blast
qed

theorem owner_grace_witness:
  "category (objects (sample_env (Fin 25) (Fin 250) [2] wall_statics) (owner sample_flying)) = Player
   \<and> \<not> collideWithOwner sample_flying
   \<and> Damaged 2 (Fin 1) \<notin> set (trace (update (sample_env (Fin 25) (Fin 250) [2] wall_statics)
         thrower_world sample_flying))
   \<and> Collided 2 \<notin> set (trace (update (sample_env (Fin 25) (Fin 250) [2] wall_statics)
         thrower_world sample_flying))
   \<and> \<not> collideWithOwner (new_projectile (sample_env (Fin 25) (Fin 0) [1] wall_statics)
         wall_world (Vec_create (Fin 100) (Fin 100)) 0 sample_definition 2 None)
   \<and> spawnTime (new_projectile (sample_env (Fin 25) (Fin 0) [1] wall_statics)
         wall_world (Vec_create (Fin 100) (Fin 100)) 0 sample_definition 2 None) = Fin 0
   \<and> \<not> collideWithOwner (after_ticks
         [(sample_env (Fin 25) (Fin 200) [2] wall_statics, thrower_world),
          (sample_env (Fin 25) (Fin 225) [2] wall_statics, thrower_world)] sample_flying)
   \<and> Collided 2 \<notin> set (trace (update (sample_env (Fin 25) (Fin 250) [2] wall_statics)
         thrower_world
         (after_ticks
            [(sample_env (Fin 25) (Fin 200) [2] wall_statics, thrower_world),
             (sample_env (Fin 25) (Fin 225) [2] wall_statics, thrower_world)] sample_flying)))"
proof -
  let ?env = "sample_env (Fin 25) (Fin 250) [2] wall_statics"
  let ?start = "sample_env (Fin 25) (Fin 0) [1] wall_statics"
  let ?ts = "[(sample_env (Fin 25) (Fin 200) [2] wall_statics, thrower_world),
              (sample_env (Fin 25) (Fin 225) [2] wall_statics, thrower_world)]"
  have player: "category (objects ?env (owner sample_flying)) = Player"
    by (simp add: sample_defs)
  have off: "\<not> collideWithOwner sample_flying" by (simp add: sample_defs)
  have early: "\<forall>t \<in> set ?ts. \<not> jge (jsub (now (fst t)) (spawnTime sample_flying)) (Fin 250)"
    by (simp add: sample_defs jge_def jsub_def)
  have own: "owner sample_flying = 2" by (simp add: sample_defs)
  have clock: "now ?start = Fin 0" by (simp add: sample_defs)
  note g = owner_grace[OF player, where w = thrower_world and ts = ?ts and ?env0.0 = ?start
      and ?w0.0 = wall_world and pos = "Vec_create (Fin 100) (Fin 100)" and lay = 0
      and d = sample_definition and own = 2 and rad = None]
  from g off have "\<forall>e \<in> set (trace (update ?env thrower_world sample_flying)).
      event_object e \<noteq> 2" using own by simp
  then have 1: "Damaged 2 (Fin 1) \<notin> set (trace (update ?env thrower_world sample_flying))"
    and 2: "Collided 2 \<notin> set (trace (update ?env thrower_world sample_flying))"
    by fastforce+
  from g have 3: "\<not> collideWithOwner (new_projectile ?start wall_world
        (Vec_create (Fin 100) (Fin 100)) 0 sample_definition 2 None)"
    and 4: "spawnTime (new_projectile ?start wall_world
        (Vec_create (Fin 100) (Fin 100)) 0 sample_definition 2 None) = Fin 0"
    using clock by simp_all
  from g off early have 5: "\<not> collideWithOwner (after_ticks ?ts sample_flying)"
    and "\<forall>e \<in> set (trace (update ?env thrower_world (after_ticks ?ts sample_flying))).
      event_object e \<noteq> 2"
    using own by simp_all
  then have 6: "Collided 2
      \<notin> set (trace (update ?env thrower_world (after_ticks ?ts sample_flying)))"
    by fastforce
  from player off 1 2 3 4 5 6 show ?thesis by blast
qed

text \<open>
  C3 as stated fails at the threshold: in a tick run 250 ms after the spawn the thrower,
  overlapping the projectile in flight, is neither damaged nor hit; the same tick with
  the flag set damages and hits it.
\<close>

theorem owner_untouched_at_threshold:
  "jge (jsub (now (sample_env (Fin 25) (Fin 250) [2] wall_statics)) (spawnTime sample_flying))
     (Fin 250)
   \<and> trace (update (sample_env (Fin 25) (Fin 250) [2] wall_statics) thrower_world sample_flying)
     = []
   \<and> collideWithOwner (proj (update (sample_env (Fin 25) (Fin 250) [2] wall_statics)
        thrower_world sample_flying))
   \<and> trace (update (sample_env (Fin 25) (Fin 250) [2] wall_statics) thrower_world
        (sample_flying\<lparr>collideWithOwner := True\<rparr>))
     = [Damaged 2 (Fin 1), Collided 2]"
  by (simp add: tick_defs sample_defs vec_ops)

section \<open>The airborne flag\<close>

lemma update_airborne:
  assumes "\<not> airborne p"
  shows "\<not> airborne (proj (update env w p))"
proof (cases "c4 (defn p)")
  case True
  then show ?thesis by (simp add: update_def scan_start_def)
next
  case False
  have "airborne (integrate env p) = airborne p"
    using loop_constants_fields(6)[OF integrate_fields(1)] .
  with assms have "\<not> airborne (classify env (integrate env p))"
    using classify_airborne[of env "integrate env p"] by blast
  with False show ?thesis by (simp add: update_def)
qed

lemma damage_airborne: "airborne (thrown (damage amount g)) = airborne (thrown g)"
  by (simp add: damage_def removeProjectile_def Let_def split: option.splits)

lemma detonate_airborne: "airborne (thrown (detonate delay g)) = airborne (thrown g)"
  by (simp add: detonate_def)

lemma fire_airborne: "airborne (thrown (fire i g)) = airborne (thrown g)"
  by (simp add: fire_def detonation_callback_def removeProjectile_def Let_def
      split: option.splits)

lemma step_airborne:
  assumes "\<not> airborne (thrown g)"
  shows "\<not> airborne (thrown (step operation g))"
proof (cases operation)
  case (Tick env)
  with assms show ?thesis by (simp add: tick_def Let_def update_airborne)
next
  case (Damage amount)
  with assms show ?thesis by (simp add: damage_airborne)
next
  case (Detonate delay)
  with assms show ?thesis by (simp add: detonate_airborne)
next
  case (Fire i)
  with assms show ?thesis by (simp add: fire_airborne)
qed

text \<open>
  C6. Once the airborne flag of a projectile is false, no sequence of ticks, damage,
  calls of \<open>detonate\<close> and firings of its timers makes it true again.
\<close>

theorem airborne_never_returns:
  assumes "\<not> airborne (thrown g)"
  shows "\<not> airborne (thrown (run ops g))"
  using assms unfolding run_def
proof (induction ops arbitrary: g)
  case Nil
  then show ?case by simp
next
  case (Cons operation ops)
  from Cons.prems have "\<not> airborne (thrown (step operation g))" by (rule step_airborne)
  then have "\<not> airborne (thrown (fold step ops (step operation g)))" by (rule Cons.IH)
  then show ?case by simp
qed

lemma slow_projectile_lands:
  "\<not> airborne (thrown (tick (sample_env (Fin 25) (Fin 100) [] wall_statics)
      (sample_game (sample_projectile (Vec_create (Fin (- 0.02)) (Fin 0))))))"
  by (simp add: tick_def tick_defs sample_defs sample_game_def vec_ops)

theorem airborne_never_returns_witness:
  "airborne (thrown (sample_game (sample_projectile (Vec_create (Fin (- 0.02)) (Fin 0)))))
   \<and> \<not> airborne (thrown (tick (sample_env (Fin 25) (Fin 100) [] wall_statics)
      (sample_game (sample_projectile (Vec_create (Fin (- 0.02)) (Fin 0))))))
   \<and> \<not> airborne (thrown (run
        [Tick (sample_env (Fin 25) (Fin 125) [1] wall_statics), Damage (Fin 1),
         Detonate (Fin 4000), Tick (sample_env (Fin 25) (Fin 150) [1] wall_statics), Fire 0]
        (tick (sample_env (Fin 25) (Fin 100) [] wall_statics)
          (sample_game (sample_projectile (Vec_create (Fin (- 0.02)) (Fin 0)))))))"
  using airborne_never_returns[OF slow_projectile_lands] slow_projectile_lands
  by (simp add: sample_game_def sample_defs)

section \<open>Detonation\<close>

lemma callback_dead:
  assumes "dead (thrown g)"
  shows "detonation_callback g = g"
  using assms by (simp add: detonation_callback_def)

lemma fire_all_dead:
  assumes "dead (thrown g)"
  shows "explosions (fire_all n g) = explosions g \<and> thrown (fire_all n g) = thrown g
       \<and> registered (fire_all n g) = registered g"
  using assms
proof (induction n arbitrary: g)
  case 0
  show ?case by simp
next
  case (Suc n)
  from Suc.prems have f: "explosions (fire 0 g) = explosions g \<and> thrown (fire 0 g) = thrown g
      \<and> registered (fire 0 g) = registered g"
    by (simp add: fire_def callback_dead)
  with Suc.prems have "dead (thrown (fire 0 g))" by simp
  from Suc.IH[OF this] f show ?case by simp
qed

lemma fire_alive:
  assumes "\<not> dead (thrown g)" and "timers g \<noteq> []"
      and "explosion (defn (thrown g)) = Some e"
  shows "dead (thrown (fire 0 g))"
    and "explosions (fire 0 g)
         = explosions g @ [(e, position (thrown g), owner (thrown g), layer (thrown g))]"
  using assms
  by (simp_all add: fire_def detonation_callback_def removeProjectile_def Let_def)

text \<open>
  C9. A detonation timer that fires when the projectile is already dead does nothing:
  the callback leaves the game as it is (no deregistration, no explosion). So when
  \<open>detonate\<close> is called twice on a live projectile whose definition has an explosion,
  and all the pending timers fire, one explosion is spawned, at the projectile's
  position and for its thrower.
\<close>

theorem detonation_fires_once:
  "(dead (thrown g) \<longrightarrow> detonation_callback g = g)
   \<and> (\<not> dead (thrown g) \<and> explosion (defn (thrown g)) = Some e \<longrightarrow>
        explosions (fire_all (length (timers (detonate d2 (detonate d1 g))))
                      (detonate d2 (detonate d1 g)))
        = explosions g @ [(e, position (thrown g), owner (thrown g), layer (thrown g))])"
proof (intro conjI impI)
  assume "dead (thrown g)"
  then show "detonation_callback g = g" by (rule callback_dead)
next
  assume a: "\<not> dead (thrown g) \<and> explosion (defn (thrown g)) = Some e"
  let ?g = "detonate d2 (detonate d1 g)"
  obtain n where n: "length (timers ?g) = Suc n"
    by (cases "length (timers ?g)") (simp_all add: detonate_def)
  have alive: "\<not> dead (thrown ?g)" "timers ?g \<noteq> []" "explosion (defn (thrown ?g)) = Some e"
    using a by (simp_all add: detonate_def)
  have same: "explosions ?g = explosions g" "position (thrown ?g) = position (thrown g)"
    "owner (thrown ?g) = owner (thrown g)" "layer (thrown ?g) = layer (thrown g)"
    by (simp_all add: detonate_def)
  have "explosions (fire_all (Suc n) ?g) = explosions (fire_all n (fire 0 ?g))" by simp
  also have "\<dots> = explosions (fire 0 ?g)"
    using fire_all_dead[OF fire_alive(1)[OF alive]] by simp
  also have "\<dots> = explosions g @ [(e, position (thrown g), owner (thrown g), layer (thrown g))]"
    using fire_alive(2)[OF alive] same by simp
  finally show "explosions (fire_all (length (timers ?g)) ?g)
      = explosions g @ [(e, position (thrown g), owner (thrown g), layer (thrown g))]"
    using n by simp
qed

theorem detonation_fires_once_witness:
  "detonation_callback (sample_game (sample_flying\<lparr>dead := True\<rparr>))
     = sample_game (sample_flying\<lparr>dead := True\<rparr>)
   \<and> explosions (fire_all (length (timers (detonate (Fin 4000) (detonate (Fin 4000)
         (sample_game sample_flying)))))
       (detonate (Fin 4000) (detonate (Fin 4000) (sample_game sample_flying))))
     = [(''frag_grenade_explosion'', Vec_create (Fin 100) (Fin 100), 2, 0)]"
proof -
  have 1: "dead (thrown (sample_game (sample_flying\<lparr>dead := True\<rparr>)))"
    by (simp add: sample_game_def)
  have 2: "\<not> dead (thrown (sample_game sample_flying))
      \<and> explosion (defn (thrown (sample_game sample_flying))) = Some ''frag_grenade_explosion''"
    by (simp add: sample_game_def sample_defs)
  have 3: "explosions (sample_game sample_flying) = []"
    "position (thrown (sample_game sample_flying)) = Vec_create (Fin 100) (Fin 100)"
    "owner (thrown (sample_game sample_flying)) = 2"
    "layer (thrown (sample_game sample_flying)) = 0"
    by (simp_all add: sample_game_def sample_defs)
  from detonation_fires_once[of "sample_game (sample_flying\<lparr>dead := True\<rparr>)"] 1
  have "detonation_callback (sample_game (sample_flying\<lparr>dead := True\<rparr>))
     = sample_game (sample_flying\<lparr>dead := True\<rparr>)" by blast
  moreover from detonation_fires_once[of "sample_game sample_flying"
      "''frag_grenade_explosion''" "Fin 4000" "Fin 4000"] 2
  have "explosions (fire_all (length (timers (detonate (Fin 4000) (detonate (Fin 4000)
         (sample_game sample_flying)))))
       (detonate (Fin 4000) (detonate (Fin 4000) (sample_game sample_flying))))
     = explosions (sample_game sample_flying)
       @ [(''frag_grenade_explosion'', position (thrown (sample_game sample_flying)),
           owner (thrown (sample_game sample_flying)), layer (thrown (sample_game sample_flying)))]"
    by blast
  ultimately show ?thesis using 3 by simp
qed

section \<open>Flying over\<close>

lemma distinct_set_order [simp]: "distinct (set_order xs)"
  by (simp add: set_order_def)

lemma scan_object_drag_sticky:
  assumes "currentDrag (proj s) = Harsh"
  shows "currentDrag (proj (scan_object env old v sdi object s)) = Harsh"
  using assms
  by (cases rule: scan_object_cases[of object s env old v sdi])
     (simp_all add: marked_fields(9))

lemma scan_loop_drag_sticky:
  assumes "currentDrag (proj s) = Harsh"
  shows "currentDrag (proj (fold (scan_object env old v sdi) xs s)) = Harsh"
  by (rule fold_invariant) (simp_all add: assms scan_object_drag_sticky)

lemma scan_loop_other_above:
  assumes "x \<notin> set xs"
  shows "x \<in> currentlyAbove (proj (fold (scan_object env old v sdi) xs s))
         \<longleftrightarrow> x \<in> currentlyAbove (proj s)"
  using assms
proof (induction xs arbitrary: s)
  case Nil
  show ?case by simp
next
  case (Cons y ys)
  then have "x \<noteq> y" and "x \<notin> set ys" by simp_all
  then show ?case
    using Cons.IH[of "scan_object env old v sdi y s"]
      scan_object_other_above[of x y env old v sdi s] by simp
qed

text \<open>The step of the loop that meets an object recorded as flown over and finds it
  colliding.\<close>

lemma scan_object_still_above:
  assumes "object \<in> currentlyAbove (proj s)"
      and "category (objects env object) = Obstacle \<or> category (objects env object) = Building"
      and "collidingWithObject env old s object"
  shows "object \<in> currentlyAbove (proj (scan_object env old v sdi object s))"
proof -
  from assms(3) obtain hb where hb: "obj_hitbox (wld s object) = Some hb"
    and c: "intersectsLine env hb old (position (proj s)) \<noteq> None
            \<or> collidesWith env (this_hitbox (proj s)) hb"
    by (auto simp: collidingWithObject_def split: option.splits)
  show ?thesis
  proof (cases "threw s \<or> ignored env sdi (wld s) (proj s) object")
    case True
    then have "scan_object env old v sdi object s = s" by (auto simp: scan_object_def)
    with assms(1) show ?thesis by simp
  next
    case False
    then show ?thesis
      using hb c assms(1,2) by (auto simp: scan_object_def Let_def)
  qed
qed

lemma scan_object_escalates:
  assumes "category (objects env object) = Obstacle \<or> category (objects env object) = Building"
      and "collidingWithObject env old s object"
      and "\<not> threw s" and "\<not> obj_dead (wld s object)" and "collidable (wld s object)"
      and "\<not> canFlyOver env v (wld s) (proj s) object"
  shows "currentDrag (proj (scan_object env old v sdi object s)) = Harsh"
proof -
  from assms(2) obtain hb where hb: "obj_hitbox (wld s object) = Some hb"
    and c: "intersectsLine env hb old (position (proj s)) \<noteq> None
            \<or> collidesWith env (this_hitbox (proj s)) hb"
    by (auto simp: collidingWithObject_def split: option.splits)
  have "\<not> ignored env sdi (wld s) (proj s) object"
    using assms(1,4,5) hb by (auto simp: ignored_def)
  then show ?thesis
    using hb c assms(1,3,6) by (auto simp: scan_object_def Let_def mark_flyover_def)
qed

lemma scan_loop_above:
  fixes s :: scan
  assumes "distinct xs"
      and "category (objects env X) = Obstacle \<or> category (objects env X) = Building"
      and "X \<in> set xs \<longrightarrow> X \<in> currentlyAbove (proj s)"
      and "\<forall>e \<in> set (trace s). event_object e = X \<longrightarrow> e = StairInteraction X"
      and "ci_object (closestIntersection s) \<noteq> Some X"
  shows "(\<forall>e \<in> set (trace (fold (scan_object env old v sdi) xs s)).
            event_object e = X \<longrightarrow> e = StairInteraction X)
       \<and> ci_object (closestIntersection (fold (scan_object env old v sdi) xs s)) \<noteq> Some X"
  using assms
proof (induction xs arbitrary: s)
  case Nil
  then show ?case by simp
next
  case (Cons y ys)
  let ?t = "scan_object env old v sdi y s"
  have d: "distinct ys" and y: "y \<notin> set ys" using Cons.prems(1) by simp_all
  have good: "(\<forall>e \<in> set (trace ?t). event_object e = X \<longrightarrow> e = StairInteraction X)
      \<and> ci_object (closestIntersection ?t) \<noteq> Some X
      \<and> (X \<in> set ys \<longrightarrow> X \<in> currentlyAbove (proj ?t))"
  proof (cases "y = X")
    case True
    with Cons.prems(3) have above: "y \<in> currentlyAbove (proj s)" by simp
    have solid: "category (objects env y) = Obstacle \<or> category (objects env y) = Building"
      using True Cons.prems(2) by simp
    have "closestIntersection ?t = closestIntersection s"
      by (rule scan_object_above(1)[OF above solid])
    moreover have "\<forall>e \<in> set (trace ?t). e \<in> set (trace s) \<or> e = StairInteraction y"
      using scan_object_above(2)[OF above solid] by blast
    ultimately show ?thesis using True y Cons.prems(4,5) by auto
  next
    case False
    have "\<forall>e \<in> set (trace ?t). e \<in> set (trace s) \<or> event_object e = y"
      using scan_object_events[of _ env old v sdi y s] by blast
    moreover have "ci_object (closestIntersection ?t) \<noteq> Some X"
      using scan_object_closest[of env old v sdi y s] Cons.prems(5) False by auto
    moreover have "X \<in> set ys \<longrightarrow> X \<in> currentlyAbove (proj ?t)"
      using scan_object_other_above[of X y env old v sdi s] False Cons.prems(3) by simp
    ultimately show ?thesis using False Cons.prems(4) by auto
  qed
  then show ?case
    using Cons.IH[of ?t, OF d Cons.prems(2)] by simp
qed

lemma scan_candidates_split:
  "scan_candidates env w p (xs @ x # ys)
   = fold (scan_object env (position p) (Vec_squaredLength (velocity (integrate env p)))
            (impactDamage (defn (integrate env p)) \<noteq> None
             \<and> jge (Vec_squaredLength (velocity (integrate env p))) threshold_impactDamage))
       ys
       (scan_object env (position p) (Vec_squaredLength (velocity (integrate env p)))
          (impactDamage (defn (integrate env p)) \<noteq> None
           \<and> jge (Vec_squaredLength (velocity (integrate env p))) threshold_impactDamage)
          x (scan_candidates env w p xs))"
  by (simp add: scan_candidates_def Let_def)

lemma scan_candidates_other_above:
  assumes "x \<notin> set xs"
  shows "x \<in> currentlyAbove (proj (scan_candidates env w p xs)) \<longleftrightarrow> x \<in> currentlyAbove p"
  using scan_loop_other_above[OF assms]
  by (simp add: scan_candidates_def Let_def scan_start_def)

text \<open>What the step of an obstacle or building does to the drag and to its membership.\<close>

lemma solid_ignored:
  assumes "category (objects env X) = Obstacle \<or> category (objects env X) = Building"
  shows "ignored env sdi w p X
       \<longleftrightarrow> obj_dead (w X) \<or> \<not> collidable (w X) \<or> obj_hitbox (w X) = None"
  using assms by (auto simp: ignored_def)

lemma scan_object_drag_step:
  assumes "category (objects env X) = Obstacle \<or> category (objects env X) = Building"
  shows "currentDrag (proj (scan_object env old v sdi X s))
       = (if \<not> threw s \<and> \<not> obj_dead (wld s X) \<and> collidable (wld s X)
             \<and> collidingWithObject env old s X \<and> \<not> canFlyOver env v (wld s) (proj s) X
          then Harsh else currentDrag (proj s))"
proof (cases "threw s \<or> ignored env sdi (wld s) (proj s) X")
  case True
  then have same: "scan_object env old v sdi X s = s" by (auto simp: scan_object_def)
  from True have "threw s \<or> obj_dead (wld s X) \<or> \<not> collidable (wld s X)
      \<or> \<not> collidingWithObject env old s X"
    using solid_ignored[OF assms] by (auto simp: collidingWithObject_def)
  with same show ?thesis by auto
next
  case False
  then obtain hb where hb: "obj_hitbox (wld s X) = Some hb"
    and live: "\<not> threw s" "\<not> obj_dead (wld s X)" "collidable (wld s X)"
    using solid_ignored[OF assms] by auto
  show ?thesis
  proof (cases "collidingWithObject env old s X")
    case True
    then have c: "intersectsLine env hb old (position (proj s)) \<noteq> None
        \<or> collidesWith env (this_hitbox (proj s)) hb"
      using hb by (simp add: collidingWithObject_def)
    show ?thesis
    proof (cases "canFlyOver env v (wld s) (proj s) X")
      case fly: True
      then have "currentDrag (proj (scan_object env old v sdi X s)) = currentDrag (proj s)"
        using False hb c assms by (auto simp: scan_object_def Let_def mark_flyover_def)
      with fly show ?thesis by simp
    next
      case nofly: False
      have "currentDrag (proj (scan_object env old v sdi X s)) = Harsh"
        using assms True live nofly by (rule scan_object_escalates)
      with True live nofly show ?thesis by simp
    qed
  next
    case nc: False
    then have "intersectsLine env hb old (position (proj s)) = None"
      and "\<not> collidesWith env (this_hitbox (proj s)) hb"
      using hb by (simp_all add: collidingWithObject_def)
    then have "currentDrag (proj (scan_object env old v sdi X s)) = currentDrag (proj s)"
      using False hb assms by (auto simp: scan_object_def Let_def react_idle)
    with nc show ?thesis by simp
  qed
qed

lemma scan_object_released:
  assumes "category (objects env X) = Obstacle \<or> category (objects env X) = Building"
      and "\<not> threw s" and "\<not> obj_dead (wld s X)" and "collidable (wld s X)"
      and "obj_hitbox (wld s X) \<noteq> None"
      and "\<not> collidingWithObject env old s X"
  shows "X \<notin> currentlyAbove (proj (scan_object env old v sdi X s))"
proof -
  from assms(5) obtain hb where hb: "obj_hitbox (wld s X) = Some hb" by auto
  with assms(6) have "intersectsLine env hb old (position (proj s)) = None"
    and "\<not> collidesWith env (this_hitbox (proj s)) hb"
    by (simp_all add: collidingWithObject_def)
  moreover have "\<not> ignored env sdi (wld s) (proj s) X"
    using solid_ignored[OF assms(1)] assms(3,4,5) by simp
  ultimately show ?thesis
    using assms(1,2) hb by (auto simp: scan_object_def Let_def react_idle)
qed

lemma scan_candidates_snoc:
  "scan_candidates env w p (xs @ [x])
   = scan_object env (position p) (Vec_squaredLength (velocity (integrate env p)))
       (impactDamage (defn (integrate env p)) \<noteq> None
        \<and> jge (Vec_squaredLength (velocity (integrate env p))) threshold_impactDamage)
       x (scan_candidates env w p xs)"
  using scan_candidates_split[of env w p xs x "[]"] by simp

text \<open>
  C2, amended. Let an obstacle or building be in \<open>currentlyAbove\<close> when a tick starts.
  The tick applies no collision reaction to it: no call of \<open>damage\<close> and no call of the
  collision response on it, in the scan or in the swept correction (a stair still gets
  its stair interaction). When the loop tests it, its step leaves the drag as it is,
  with one exception: if the object, alive and collidable, is found colliding and cannot
  be flown over at that moment, the step sets the harsh drag, and the tick ends with
  it. If the loop finds it colliding, it is still in \<open>currentlyAbove\<close> when the tick
  ends, so the exclusion holds in the next tick too; if the loop tests it and finds it
  not colliding, it is no longer in \<open>currentlyAbove\<close> when the tick ends.
\<close>

theorem flyover_hysteresis:
  assumes "X \<in> currentlyAbove p"
      and "category (objects env X) = Obstacle \<or> category (objects env X) = Building"
  shows "(\<forall>e \<in> set (trace (update env w p)). event_object e = X \<longrightarrow> e = StairInteraction X)
       \<and> (candidates env p = xs @ X # ys \<longrightarrow>
            currentDrag (proj (scan_candidates env w p (xs @ [X])))
            = (if \<not> threw (scan_candidates env w p xs)
                  \<and> \<not> obj_dead (wld (scan_candidates env w p xs) X)
                  \<and> collidable (wld (scan_candidates env w p xs) X)
                  \<and> collidingWithObject env (position p) (scan_candidates env w p xs) X
                  \<and> \<not> canFlyOver env (Vec_squaredLength (velocity (integrate env p)))
                        (wld (scan_candidates env w p xs)) (proj (scan_candidates env w p xs)) X
               then Harsh else currentDrag (proj (scan_candidates env w p xs)))
          \<and> (collidingWithObject env (position p) (scan_candidates env w p xs) X
              \<longrightarrow> X \<in> currentlyAbove (proj (update env w p))
                  \<and> (\<not> c4 (defn p) \<and> \<not> threw (scan_candidates env w p xs)
                      \<and> \<not> obj_dead (wld (scan_candidates env w p xs) X)
                      \<and> collidable (wld (scan_candidates env w p xs) X)
                      \<and> \<not> canFlyOver env (Vec_squaredLength (velocity (integrate env p)))
                            (wld (scan_candidates env w p xs))
                            (proj (scan_candidates env w p xs)) X
                     \<longrightarrow> currentDrag (proj (update env w p)) = Harsh))
          \<and> (\<not> c4 (defn p) \<and> \<not> threw (scan_candidates env w p xs)
              \<and> \<not> obj_dead (wld (scan_candidates env w p xs) X)
              \<and> collidable (wld (scan_candidates env w p xs) X)
              \<and> obj_hitbox (wld (scan_candidates env w p xs) X) \<noteq> None
              \<and> \<not> collidingWithObject env (position p) (scan_candidates env w p xs) X
             \<longrightarrow> X \<notin> currentlyAbove (proj (update env w p))))"
proof -
  let ?V = "Vec_squaredLength (velocity (integrate env p))"
  let ?D = "impactDamage (defn (integrate env p)) \<noteq> None \<and> jge ?V threshold_impactDamage"
  let ?all = "scan_candidates env w p (candidates env p)"
  let ?s1 = "scan_candidates env w p xs"
  let ?s2 = "scan_object env (position p) ?V ?D X ?s1"
  have no_reaction:
    "\<forall>e \<in> set (trace (update env w p)). event_object e = X \<longrightarrow> e = StairInteraction X"
  proof (cases "c4 (defn p)")
    case True
    then show ?thesis by (simp add: update_def scan_start_def)
  next
    case False
    have start: "X \<in> currentlyAbove (proj (scan_start w (classify env (integrate env p))))"
      using assms(1) by (simp add: scan_start_def)
    have "(\<forall>e \<in> set (trace ?all). event_object e = X \<longrightarrow> e = StairInteraction X)
        \<and> ci_object (closestIntersection ?all) \<noteq> Some X"
      unfolding scan_candidates_def Let_def
      by (rule scan_loop_above)
         (use assms(2) start in \<open>simp_all add: candidates_def Let_def scan_start_def\<close>)
    then show ?thesis
      using finish_trace[of _ env ?all] False by (auto simp: update_def)
  qed
  have step: "currentDrag (proj (scan_candidates env w p (xs @ [X])))
      = (if \<not> threw ?s1 \<and> \<not> obj_dead (wld ?s1 X) \<and> collidable (wld ?s1 X)
            \<and> collidingWithObject env (position p) ?s1 X
            \<and> \<not> canFlyOver env ?V (wld ?s1) (proj ?s1) X
         then Harsh else currentDrag (proj ?s1))"
    unfolding scan_candidates_snoc using assms(2) by (rule scan_object_drag_step)
  have split_facts: "X \<notin> set ys \<and> X \<in> currentlyAbove (proj ?s1)
      \<and> (\<not> c4 (defn p) \<longrightarrow> update env w p
            = finish env (fold (scan_object env (position p) ?V ?D) ys ?s2))"
    if split: "candidates env p = xs @ X # ys"
  proof -
    have "distinct (xs @ X # ys)" using split[symmetric] by (simp add: candidates_def Let_def)
    then have nx: "X \<notin> set xs" and ny: "X \<notin> set ys" by simp_all
    have "?all = fold (scan_object env (position p) ?V ?D) ys ?s2"
      using split by (simp add: scan_candidates_split)
    moreover have "X \<in> currentlyAbove (proj ?s1)"
      using scan_candidates_other_above[OF nx] assms(1) by simp
    ultimately show ?thesis using ny by (simp add: update_def)
  qed
  have persists: "X \<in> currentlyAbove (proj (update env w p))
      \<and> (\<not> c4 (defn p) \<and> \<not> threw ?s1 \<and> \<not> obj_dead (wld ?s1 X) \<and> collidable (wld ?s1 X)
          \<and> \<not> canFlyOver env ?V (wld ?s1) (proj ?s1) X
         \<longrightarrow> currentDrag (proj (update env w p)) = Harsh)"
    if split: "candidates env p = xs @ X # ys"
      and colliding: "collidingWithObject env (position p) ?s1 X"
  proof (cases "c4 (defn p)")
    case True
    with assms(1) show ?thesis by (simp add: update_def scan_start_def)
  next
    case False
    from split_facts[OF split] False have ny: "X \<notin> set ys"
      and above: "X \<in> currentlyAbove (proj ?s1)"
      and u: "update env w p = finish env (fold (scan_object env (position p) ?V ?D) ys ?s2)"
      by simp_all
    from above have "X \<in> currentlyAbove (proj ?s2)"
      using assms(2) colliding by (rule scan_object_still_above)
    then have member: "X \<in> currentlyAbove (proj (update env w p))"
      using scan_loop_other_above[OF ny] u by simp
    have "currentDrag (proj (update env w p)) = Harsh"
      if "\<not> threw ?s1" and "\<not> obj_dead (wld ?s1 X)" and "collidable (wld ?s1 X)"
        and "\<not> canFlyOver env ?V (wld ?s1) (proj ?s1) X"
    proof -
      have "currentDrag (proj ?s2) = Harsh"
        using assms(2) colliding that by (rule scan_object_escalates)
      then show ?thesis using u by (simp add: scan_loop_drag_sticky)
    qed
    with member show ?thesis by blast
  qed
  have released: "X \<notin> currentlyAbove (proj (update env w p))"
    if split: "candidates env p = xs @ X # ys"
      and tested: "\<not> c4 (defn p)" "\<not> threw ?s1" "\<not> obj_dead (wld ?s1 X)"
        "collidable (wld ?s1 X)" "obj_hitbox (wld ?s1 X) \<noteq> None"
        "\<not> collidingWithObject env (position p) ?s1 X"
  proof -
    from split_facts[OF split] tested(1) have ny: "X \<notin> set ys"
      and u: "update env w p = finish env (fold (scan_object env (position p) ?V ?D) ys ?s2)"
      by simp_all
    have "X \<notin> currentlyAbove (proj ?s2)"
      using assms(2) tested(2-6) by (rule scan_object_released)
    then show ?thesis using scan_loop_other_above[OF ny] u by simp
  qed
  from no_reaction step persists released show ?thesis by blast
qed

theorem flyover_hysteresis_witness:
  "3 \<in> currentlyAbove sample_landing
   \<and> Collided 3 \<notin> set (trace (update (sample_env (Fin 25) (Fin 100) [3] wall_statics)
        table_world sample_landing))
   \<and> Damaged 3 (Fin 20) \<notin> set (trace (update (sample_env (Fin 25) (Fin 100) [3] wall_statics)
        table_world sample_landing))
   \<and> 3 \<in> currentlyAbove (proj (update (sample_env (Fin 25) (Fin 100) [3] wall_statics)
        table_world sample_landing))
   \<and> currentDrag (proj (update (sample_env (Fin 25) (Fin 100) [3] wall_statics)
        table_world sample_landing)) = Harsh
   \<and> currentDrag (proj (scan_candidates (sample_env (Fin 25) (Fin 100) [3] wall_statics)
        table_world (sample_flying\<lparr>currentlyAbove := {3}\<rparr>) ([] @ [3]))) = Normal
   \<and> 3 \<notin> currentlyAbove (proj (update (sample_env (Fin 25) (Fin 100) [3] wall_statics)
        wall_world sample_landing))"
proof -
  let ?env = "sample_env (Fin 25) (Fin 100) [3] wall_statics"
  let ?s1 = "scan_candidates ?env table_world sample_landing []"
  let ?fast = "sample_flying\<lparr>currentlyAbove := {3}\<rparr>"
  let ?f1 = "scan_candidates ?env table_world ?fast []"
  let ?g1 = "scan_candidates ?env wall_world sample_landing []"
  have above: "3 \<in> currentlyAbove sample_landing" by (simp add: sample_defs)
  have above_fast: "3 \<in> currentlyAbove ?fast" by simp
  have solid: "category (objects ?env 3) = Obstacle \<or> category (objects ?env 3) = Building"
    by (simp add: sample_defs)
  have cands: "candidates ?env sample_landing = [] @ 3 # []"
    by (simp add: candidates_def set_order_def sample_defs Let_def)
  have cands_fast: "candidates ?env ?fast = [] @ 3 # []"
    by (simp add: candidates_def set_order_def sample_defs Let_def)
  have colliding: "collidingWithObject ?env (position sample_landing) ?s1 3"
    by (simp add: collidingWithObject_def tick_defs sample_defs vec_ops)
  have tested: "\<not> c4 (defn sample_landing) \<and> \<not> threw ?s1 \<and> \<not> obj_dead (wld ?s1 3)
      \<and> collidable (wld ?s1 3)
      \<and> \<not> canFlyOver ?env (Vec_squaredLength (velocity (integrate ?env sample_landing)))
            (wld ?s1) (proj ?s1) 3"
    by (simp add: tick_defs sample_defs vec_ops)
  have eligible: "canFlyOver ?env (Vec_squaredLength (velocity (integrate ?env ?fast)))
      (wld ?f1) (proj ?f1) 3"
    and normal: "currentDrag (proj ?f1) = Normal"
    by (simp_all add: tick_defs sample_defs vec_ops)
  have apart: "\<not> c4 (defn sample_landing) \<and> \<not> threw ?g1 \<and> \<not> obj_dead (wld ?g1 3)
      \<and> collidable (wld ?g1 3) \<and> obj_hitbox (wld ?g1 3) \<noteq> None
      \<and> \<not> collidingWithObject ?env (position sample_landing) ?g1 3"
    by (simp add: collidingWithObject_def tick_defs sample_defs vec_ops)
  note h = flyover_hysteresis[OF above solid, where w = table_world and xs = "[]" and ys = "[]"]
  note f = flyover_hysteresis[OF above_fast solid,
      where w = table_world and xs = "[]" and ys = "[]"]
  note g = flyover_hysteresis[OF above solid, where w = wall_world and xs = "[]" and ys = "[]"]
  from h have "\<forall>e \<in> set (trace (update ?env table_world sample_landing)).
      event_object e = 3 \<longrightarrow> e = StairInteraction 3" by blast
  then have 1: "Collided 3 \<notin> set (trace (update ?env table_world sample_landing))"
    and 2: "Damaged 3 (Fin 20) \<notin> set (trace (update ?env table_world sample_landing))"
    by fastforce+
  from h cands colliding tested
  have 3: "3 \<in> currentlyAbove (proj (update ?env table_world sample_landing))"
    and 4: "currentDrag (proj (update ?env table_world sample_landing)) = Harsh"
    by blast+
  from f cands_fast have "currentDrag (proj (scan_candidates ?env table_world ?fast ([] @ [3])))
      = (if \<not> threw ?f1 \<and> \<not> obj_dead (wld ?f1 3) \<and> collidable (wld ?f1 3)
            \<and> collidingWithObject ?env (position ?fast) ?f1 3
            \<and> \<not> canFlyOver ?env (Vec_squaredLength (velocity (integrate ?env ?fast)))
                  (wld ?f1) (proj ?f1) 3
         then Harsh else currentDrag (proj ?f1))" by blast
  with eligible normal
  have 5: "currentDrag (proj (scan_candidates ?env table_world ?fast ([] @ [3]))) = Normal"
    by simp
  from g cands apart
  have 6: "3 \<notin> currentlyAbove (proj (update ?env wall_world sample_landing))" by blast
  from above 1 2 3 4 5 6 show ?thesis by blast
qed

text \<open>
  C2 as stated fails for the drag: a slow projectile recorded as above the table, and
  still overlapping it, ends the tick with the harsh drag; without the table among the
  candidates the same tick keeps the normal drag.
\<close>

theorem flown_over_object_escalates_drag:
  "3 \<in> currentlyAbove sample_landing
   \<and> currentDrag sample_landing = Normal
   \<and> collidingWithObject (sample_env (Fin 25) (Fin 100) [3] wall_statics)
       (position sample_landing)
       (scan_candidates (sample_env (Fin 25) (Fin 100) [3] wall_statics) table_world
          sample_landing []) 3
   \<and> currentDrag (proj (update (sample_env (Fin 25) (Fin 100) [3] wall_statics)
        table_world sample_landing)) = Harsh
   \<and> currentDrag (proj (update (sample_env (Fin 25) (Fin 100) [] wall_statics)
        table_world sample_landing)) = Normal"
  by (simp add: collidingWithObject_def tick_defs sample_defs vec_ops)

section \<open>Drag\<close>

lemma integrate_velocity_formula:
  "velocity (integrate env p)
   = Vec_scale (velocity p)
       (jdiv (Fin 1) (jadd (Fin 1) (jmul (dt env) (drag_value (currentDrag p)))))"
  by (simp add: integrate_def Let_def)

lemma squared_length_scaled:
  assumes "0 < k" and "k \<le> 1" and "vec_x v \<noteq> NaN" and "vec_y v \<noteq> NaN"
  shows "jle (Vec_squaredLength (Vec_scale v (Fin k))) (Vec_squaredLength v)"
proof -
  have kk: "k * k \<le> 1" using assms(1,2) by (simp add: mult_le_one)
  have fin: "a * k * (a * k) + b * k * (b * k) \<le> a * a + b * b" for a b :: real
  proof -
    have "a * k * (a * k) + b * k * (b * k) = (a * a + b * b) * (k * k)"
      by (simp add: algebra_simps)
    also have "\<dots> \<le> (a * a + b * b) * 1"
      using kk by (intro mult_left_mono) simp_all
    finally show ?thesis by simp
  qed
  show ?thesis
    using assms(1,3,4) fin
    by (cases "vec_x v"; cases "vec_y v")
       (simp_all add: Vec_squaredLength_def Vec_scale_def Vec_create_def inf_of_sign_def)
qed

lemma squared_length_same:
  assumes "vec_x v \<noteq> NaN" and "vec_y v \<noteq> NaN"
  shows "jle (Vec_squaredLength v) (Vec_squaredLength v)"
  using assms
  by (cases "vec_x v"; cases "vec_y v") (simp_all add: Vec_squaredLength_def)

text \<open>
  C7, amended. In a tick with a finite \<open>dt > 0\<close> (the drag coefficient is \<open>Normal\<close> or
  \<open>Harsh\<close>, both positive) of a projectile whose velocity has no \<open>NaN\<close> component, if
  the tick invokes no collision response and no stair interaction, the squared length
  of the velocity after the tick is not greater than before it. The velocity after the
  tick is the velocity before it times \<open>1 / (1 + dt * drag)\<close>; a projectile at rest
  stays at rest, and the velocity of a planted device is not touched.
\<close>

theorem drag_never_speeds_up:
  assumes "dt env = Fin d" and "0 < d"
      and "vec_x (velocity p) \<noteq> NaN" and "vec_y (velocity p) \<noteq> NaN"
      and "\<forall>e \<in> set (trace (update env w p)). \<not> reaction e"
  shows "jle (Vec_squaredLength (velocity (proj (update env w p))))
           (Vec_squaredLength (velocity p))
       \<and> (velocity p = Vec_create (Fin 0) (Fin 0)
            \<longrightarrow> velocity (proj (update env w p)) = Vec_create (Fin 0) (Fin 0))
       \<and> (c4 (defn p) \<longrightarrow> velocity (proj (update env w p)) = velocity p)
       \<and> (\<not> c4 (defn p) \<longrightarrow> velocity (proj (update env w p))
            = Vec_scale (velocity p)
                (jdiv (Fin 1) (jadd (Fin 1) (jmul (dt env) (drag_value (currentDrag p))))))"
proof (cases "c4 (defn p)")
  case True
  then have "velocity (proj (update env w p)) = velocity p"
    by (simp add: update_def scan_start_def)
  with True assms(3,4) show ?thesis by (simp add: squared_length_same)
next
  case False
  obtain c where c: "drag_value (currentDrag p) = Fin c" "0 < c"
    using drag_positive by blast
  define k where "k = 1 / (1 + d * c)"
  have "0 < d * c" using assms(2) c(2) by simp
  then have k: "0 < k" "k \<le> 1" by (simp_all add: k_def)
  have factor: "jdiv (Fin 1) (jadd (Fin 1) (jmul (dt env) (drag_value (currentDrag p)))) = Fin k"
    using assms(1) c(1) \<open>0 < d * c\<close> by (simp add: k_def)
  have after: "velocity (proj (update env w p)) = Vec_scale (velocity p) (Fin k)"
    using update_quiet(1)[OF False assms(5)] factor
    by (simp add: integrate_velocity_formula)
  have "jle (Vec_squaredLength (velocity (proj (update env w p))))
      (Vec_squaredLength (velocity p))"
    unfolding after using k assms(3,4) by (rule squared_length_scaled)
  moreover have "velocity (proj (update env w p)) = Vec_create (Fin 0) (Fin 0)"
    if "velocity p = Vec_create (Fin 0) (Fin 0)"
    using after that by (simp add: Vec_scale_def Vec_create_def)
  ultimately show ?thesis using False after factor by simp
qed

lemma flight_in_the_open:
  "trace (update (sample_env (Fin 25) (Fin 100) [] wall_statics) wall_world sample_flying) = []"
  by (simp add: tick_defs sample_defs vec_ops)

theorem drag_never_speeds_up_witness:
  "dt (sample_env (Fin 25) (Fin 100) [] wall_statics) = Fin 25
   \<and> trace (update (sample_env (Fin 25) (Fin 100) [] wall_statics) wall_world sample_flying) = []
   \<and> jle (Vec_squaredLength (velocity (proj
         (update (sample_env (Fin 25) (Fin 100) [] wall_statics) wall_world sample_flying))))
       (Vec_squaredLength (velocity sample_flying))
   \<and> velocity (proj (update (sample_env (Fin 25) (Fin 100) [] wall_statics) wall_world
         sample_flying)) = Vec_create (Fin (- (8 / 205))) (Fin 0)"
proof -
  let ?env = "sample_env (Fin 25) (Fin 100) [] wall_statics"
  have 1: "dt ?env = Fin 25" by (simp add: sample_defs)
  have 2: "(0::real) < 25" by simp
  have 3: "vec_x (velocity sample_flying) \<noteq> NaN" "vec_y (velocity sample_flying) \<noteq> NaN"
    by (simp_all add: sample_defs Vec_create_def)
  have 4: "\<forall>e \<in> set (trace (update ?env wall_world sample_flying)). \<not> reaction e"
    by (simp add: flight_in_the_open)
  have 5: "\<not> c4 (defn sample_flying)" by (simp add: sample_defs)
  have 6: "Vec_scale (velocity sample_flying)
      (jdiv (Fin 1) (jadd (Fin 1) (jmul (dt ?env) (drag_value (currentDrag sample_flying)))))
      = Vec_create (Fin (- (8 / 205))) (Fin 0)"
    by (simp add: sample_defs Vec_scale_def Vec_create_def)
  note t = drag_never_speeds_up[OF 1 2 3 4]
  from t have a: "jle (Vec_squaredLength (velocity (proj (update ?env wall_world sample_flying))))
      (Vec_squaredLength (velocity sample_flying))" by blast
  from t 5 have "velocity (proj (update ?env wall_world sample_flying))
      = Vec_scale (velocity sample_flying)
          (jdiv (Fin 1) (jadd (Fin 1) (jmul (dt ?env) (drag_value (currentDrag sample_flying)))))"
    by blast
  then have b: "velocity (proj (update ?env wall_world sample_flying))
      = Vec_create (Fin (- (8 / 205))) (Fin 0)"
    using 6 by (rule trans)
  from 1 flight_in_the_open a b show ?thesis by blast
qed

text \<open>
  C7 as stated fails for a projectile at rest: with \<open>dt = 25\<close>, the normal drag and no
  collision, its squared speed is zero before and after the tick.
\<close>

theorem drag_leaves_projectile_at_rest:
  "dt (sample_env (Fin 25) (Fin 100) [] wall_statics) = Fin 25
   \<and> drag_value (currentDrag (sample_projectile (Vec_create (Fin 0) (Fin 0)))) = Fin 0.001
   \<and> trace (update (sample_env (Fin 25) (Fin 100) [] wall_statics) wall_world
        (sample_projectile (Vec_create (Fin 0) (Fin 0)))) = []
   \<and> \<not> jless (Vec_squaredLength (velocity (proj
         (update (sample_env (Fin 25) (Fin 100) [] wall_statics) wall_world
            (sample_projectile (Vec_create (Fin 0) (Fin 0)))))))
       (Vec_squaredLength (velocity (sample_projectile (Vec_create (Fin 0) (Fin 0)))))"
  by (simp add: tick_defs sample_defs vec_ops)

section \<open>A tick of no duration\<close>

lemma jadd_zero [simp]: "jadd a (Fin 0) = a"
  by (cases a) simp_all

lemma jmul_zero_ngt: "\<not> jgt (Fin 0) (jmul a (Fin 0))"
  by (cases a) (simp_all add: jgt_def inf_of_sign_def)

lemma clamp_inside:
  assumes "jle lo v" and "jle v hi"
  shows "Numeric_clamp v lo hi = v"
  using assms
  by (cases v; cases lo; cases hi) (auto simp: Numeric_clamp_def jgt_def)

lemma integrate_zero_dt:
  assumes "dt env = Fin 0" and "finite_vec (velocity p)" and "finite_num (angularVelocity p)"
  shows "position (integrate env p) = position p"
    and "rotation (integrate env p) = Angle_normalize env (rotation p)"
proof -
  from assms(2) obtain a b where v: "velocity p = Vec_create (Fin a) (Fin b)"
    by (rule finite_vec_cases)
  from assms(3) obtain r where r: "angularVelocity p = Fin r"
    by (cases "angularVelocity p") simp_all
  obtain c where c: "drag_value (currentDrag p) = Fin c" using drag_positive by blast
  have still: "calculateSafeDisplacement q (Fin 0) = Vec_create (Fin 0) (Fin 0)"
    if "velocity q = Vec_create (Fin a) (Fin b)" for q
    using that jmul_zero_ngt[of "speedCap (defn q)"]
    by (simp add: calculateSafeDisplacement_def Let_def Vec_scale_def Vec_create_def
        Vec_length_def Vec_squaredLength_def)
  have pos: "Vec_add x \<lparr>vec_x = Fin 0, vec_y = Fin 0\<rparr> = x" for x
    by (simp add: Vec_add_def Vec_create_def)
  show "position (integrate env p) = position p"
    using assms(1) v c
    by (simp add: integrate_def Let_def still Vec_scale_def Vec_create_def pos)
  show "rotation (integrate env p) = Angle_normalize env (rotation p)"
    using assms(1) r by (simp add: integrate_def Let_def)
qed

text \<open>
  C8, amended. In a tick with \<open>dt = 0\<close> of a projectile with a finite velocity (and a
  finite angular velocity) that lies within the world bounds, if the tick invokes no
  collision response and no stair interaction, the position after the tick is the
  position before it, and the rotation is the rotation before it, normalised by line
  166 (untouched for a planted device).
\<close>

theorem zero_dt_keeps_position:
  assumes "dt env = Fin 0"
      and "finite_vec (velocity p)" and "finite_num (angularVelocity p)"
      and "in_bounds env p"
      and "\<forall>e \<in> set (trace (update env w p)). \<not> reaction e"
  shows "position (proj (update env w p)) = position p
       \<and> rotation (proj (update env w p))
         = (if c4 (defn p) then rotation p else Angle_normalize env (rotation p))"
proof (cases "c4 (defn p)")
  case True
  then show ?thesis by (simp add: update_def scan_start_def)
next
  case False
  note i = integrate_zero_dt[OF assms(1-3)]
  have x: "Numeric_clamp (vec_x (position p)) (radius p) (jsub (map_width env) (radius p))
      = vec_x (position p)"
    and y: "Numeric_clamp (vec_y (position p)) (radius p) (jsub (map_height env) (radius p))
      = vec_y (position p)"
    using assms(4) by (simp_all add: in_bounds_def clamp_inside)
  have "position (proj (update env w p)) = position p"
    using update_quiet(3)[OF False assms(5)] i(1) x y by (simp add: Vec_create_def)
  moreover have "rotation (proj (update env w p)) = Angle_normalize env (rotation p)"
    using update_quiet(2)[OF False assms(5)] i(2) by simp
  ultimately show ?thesis using False by simp
qed

lemma still_tick_in_the_open:
  "trace (update (sample_env (Fin 0) (Fin 100) [] wall_statics) wall_world sample_flying) = []"
  by (simp add: tick_defs sample_defs vec_ops)

theorem zero_dt_keeps_position_witness:
  "dt (sample_env (Fin 0) (Fin 100) [] wall_statics) = Fin 0
   \<and> in_bounds (sample_env (Fin 0) (Fin 100) [] wall_statics) sample_flying
   \<and> position (proj (update (sample_env (Fin 0) (Fin 100) [] wall_statics) wall_world
        sample_flying)) = Vec_create (Fin 100) (Fin 100)
   \<and> rotation (proj (update (sample_env (Fin 0) (Fin 100) [] wall_statics) wall_world
        sample_flying)) = Fin 0"
proof -
  let ?env = "sample_env (Fin 0) (Fin 100) [] wall_statics"
  have 1: "dt ?env = Fin 0" by (simp add: sample_defs)
  have 2: "finite_vec (velocity sample_flying)"
    by (simp add: sample_defs finite_vec_def Vec_create_def)
  have 3: "finite_num (angularVelocity sample_flying)" by (simp add: sample_defs)
  have 4: "in_bounds ?env sample_flying"
    by (simp add: in_bounds_def sample_defs Vec_create_def jsub_def)
  have 5: "\<forall>e \<in> set (trace (update ?env wall_world sample_flying)). \<not> reaction e"
    by (simp add: still_tick_in_the_open)
  have 6: "position sample_flying = Vec_create (Fin 100) (Fin 100)"
    "rotation sample_flying = Fin 0" "\<not> c4 (defn sample_flying)"
    "Angle_normalize ?env (Fin 0) = Fin 0"
    by (simp_all add: sample_defs)
  show ?thesis
    using zero_dt_keeps_position[OF 1 2 3 4 5] 1 4 6 by simp
qed

text \<open>
  C8 as stated fails when the projectile overlaps an obstacle: with \<open>dt = 0\<close> the
  collision response still pushes it out of the wall.
\<close>

theorem zero_dt_collision_moves_projectile:
  "dt (sample_env (Fin 0) (Fin 100) [1] wall_statics) = Fin 0
   \<and> position sample_flying = Vec_create (Fin 100) (Fin 100)
   \<and> position (proj (update (sample_env (Fin 0) (Fin 100) [1] wall_statics) wall_world
        sample_flying)) = Vec_create (Fin 99) (Fin 100)"
  by (simp add: tick_defs sample_defs vec_ops)

end
